theory Spec2Isabelle
  imports Main "HOL-Library.Word"
begin

section \<open>Two-dimensional arrays and the NumPy operations used by \<open>array_extras.py\<close>\<close>

text \<open>
  The only exceptions the source can raise come from NumPy itself: a shape that
  cannot be broadcast in a slice assignment, blocks of different widths handed to
  \<open>vstack\<close>/\<open>hstack\<close>, a negative repetition count in \<open>tile\<close>, and a negative
  dimension in \<open>zeros\<close>. All of them are \<open>ValueError\<close>.
\<close>

datatype error = ValueError

definition and_then :: "error + 'a \<Rightarrow> ('a \<Rightarrow> error + 'b) \<Rightarrow> error + 'b" where
  "and_then r f = (case r of Inl e \<Rightarrow> Inl e | Inr v \<Rightarrow> f v)"

text \<open>
  A 2D \<open>ndarray\<close>: its shape and its rows. The shape is kept explicitly because an
  array with no rows still has a column count in NumPy (shape \<open>(0, c)\<close>), and that
  count decides whether a later assignment or stack succeeds.
\<close>

record 'a ndarray =
  nrows :: nat
  ncols :: nat
  elems :: "'a list list"

definition well_shaped :: "'a ndarray \<Rightarrow> bool" where
  "well_shaped a \<longleftrightarrow>
     length (elems a) = nrows a \<and> list_all (\<lambda>r. length r = ncols a) (elems a)"

definition cell :: "'a ndarray \<Rightarrow> nat \<Rightarrow> nat \<Rightarrow> 'a" where
  "cell a i j = elems a ! i ! j"

definition mk_array :: "nat \<Rightarrow> nat \<Rightarrow> (nat \<Rightarrow> nat \<Rightarrow> 'a) \<Rightarrow> 'a ndarray" where
  "mk_array r c f = \<lparr>nrows = r, ncols = c, elems = map (\<lambda>i. map (f i) [0..<c]) [0..<r]\<rparr>"

subsection \<open>Python slices with step 1\<close>

text \<open>
  A slice \<open>lo:hi\<close> is a pair of optional integers (\<open>None\<close> for an omitted bound).
  \<open>adjust_index\<close> is what Python does to one bound for a sequence of length \<open>n\<close>:
  a negative bound counts from the end, and the result is clamped to \<open>[0, n]\<close>.
\<close>

type_synonym pyslice = "int option \<times> int option"

definition adjust_index :: "int \<Rightarrow> nat \<Rightarrow> nat" where
  "adjust_index i n =
     (if i < 0 then (if i + int n < 0 then 0 else nat (i + int n))
      else (if int n \<le> i then n else nat i))"

definition slice_start :: "pyslice \<Rightarrow> nat \<Rightarrow> nat" where
  "slice_start s n = (case fst s of None \<Rightarrow> 0 | Some i \<Rightarrow> adjust_index i n)"

definition slice_stop :: "pyslice \<Rightarrow> nat \<Rightarrow> nat" where
  "slice_stop s n = (case snd s of None \<Rightarrow> n | Some i \<Rightarrow> adjust_index i n)"

definition slice_len :: "pyslice \<Rightarrow> nat \<Rightarrow> nat" where
  "slice_len s n = slice_stop s n - slice_start s n"

abbreviation whole :: pyslice where
  "whole \<equiv> (None, None)"

subsection \<open>NumPy primitives\<close>

definition zeros :: "int \<Rightarrow> int \<Rightarrow> error + ('a::zero) ndarray" where
  "zeros x y = (if x < 0 \<or> y < 0 then Inl ValueError
                else Inr (mk_array (nat x) (nat y) (\<lambda>i j. 0)))"

definition zeros_like :: "('a::zero) ndarray \<Rightarrow> 'a ndarray" where
  "zeros_like a = mk_array (nrows a) (ncols a) (\<lambda>i j. 0)"

text \<open>\<open>a[rs, cs]\<close> read: slicing never raises, it clamps.\<close>

definition getitem :: "'a ndarray \<Rightarrow> pyslice \<Rightarrow> pyslice \<Rightarrow> 'a ndarray" where
  "getitem a rs cs =
     mk_array (slice_len rs (nrows a)) (slice_len cs (ncols a))
       (\<lambda>i j. cell a (slice_start rs (nrows a) + i) (slice_start cs (ncols a) + j))"

text \<open>
  Broadcasting a 2D value to a target shape: each dimension has to agree with the
  target or be 1.
\<close>

definition broadcast_to :: "'a ndarray \<Rightarrow> nat \<Rightarrow> nat \<Rightarrow> error + 'a ndarray" where
  "broadcast_to src r c =
     (if (nrows src = r \<or> nrows src = 1) \<and> (ncols src = c \<or> ncols src = 1)
      then Inr (mk_array r c
             (\<lambda>i j. cell src (if nrows src = 1 then 0 else i) (if ncols src = 1 then 0 else j)))
      else Inl ValueError)"

text \<open>\<open>a[rs, cs] = src\<close>: the value is broadcast to the shape of the selected region.\<close>

definition setitem :: "'a ndarray \<Rightarrow> pyslice \<Rightarrow> pyslice \<Rightarrow> 'a ndarray \<Rightarrow> error + 'a ndarray" where
  "setitem a rs cs src =
     and_then (broadcast_to src (slice_len rs (nrows a)) (slice_len cs (ncols a)))
       (\<lambda>v. Inr (mk_array (nrows a) (ncols a)
          (\<lambda>i j. if slice_start rs (nrows a) \<le> i
                     \<and> i < slice_start rs (nrows a) + slice_len rs (nrows a)
                     \<and> slice_start cs (ncols a) \<le> j
                     \<and> j < slice_start cs (ncols a) + slice_len cs (ncols a)
                  then cell v (i - slice_start rs (nrows a)) (j - slice_start cs (ncols a))
                  else cell a i j)))"

text \<open>\<open>np.tile(a, (qr, qc))\<close>.\<close>

definition tile :: "'a ndarray \<Rightarrow> int \<Rightarrow> int \<Rightarrow> error + 'a ndarray" where
  "tile a qr qc =
     (if qr < 0 \<or> qc < 0 then Inl ValueError
      else Inr (mk_array (nat qr * nrows a) (nat qc * ncols a)
             (\<lambda>i j. cell a (i mod nrows a) (j mod ncols a))))"

definition vstack :: "'a ndarray \<Rightarrow> 'a ndarray \<Rightarrow> error + 'a ndarray" where
  "vstack a b =
     (if ncols a \<noteq> ncols b then Inl ValueError
      else Inr (mk_array (nrows a + nrows b) (ncols a)
             (\<lambda>i j. if i < nrows a then cell a i j else cell b (i - nrows a) j)))"

definition hstack :: "'a ndarray \<Rightarrow> 'a ndarray \<Rightarrow> error + 'a ndarray" where
  "hstack a b =
     (if nrows a \<noteq> nrows b then Inl ValueError
      else Inr (mk_array (nrows a) (ncols a + ncols b)
             (\<lambda>i j. if j < ncols a then cell a i j else cell b i (j - ncols a))))"

section \<open>\<open>shift_2d\<close>\<close>

text \<open>
  The row pass of \<open>shift_2d\<close> (source lines 45 to 66). \<open>quot\<close> is only bound when
  \<open>stride > 0\<close>, and only read there.
\<close>

definition shift_rows :: "('a::zero) ndarray \<Rightarrow> int \<Rightarrow> int \<Rightarrow> error + 'a ndarray" where
  "shift_rows arr shift_row stride =
     (let row_arr = zeros_like arr;
          quot = (let quot = \<bar>shift_row\<bar> div stride; rem = shift_row mod stride
                  in if rem \<noteq> 0 then quot + 1 else quot)
      in if shift_row > 0 then
           (if stride > 0 then
              and_then (tile (getitem arr (None, Some stride) whole) quot 1)
                (\<lambda>t. let stride_arr = getitem t (Some (- shift_row), None) whole
                      in vstack stride_arr (getitem arr (None, Some (- shift_row)) whole))
            else setitem row_arr (Some shift_row, None) whole
                   (getitem arr (None, Some (- shift_row)) whole))
         else if shift_row < 0 then
           (if stride > 0 then
              and_then (tile (getitem arr (Some (- stride), None) whole) quot 1)
                (\<lambda>t. let stride_arr = getitem t (None, Some (- shift_row)) whole
                      in vstack (getitem arr (Some (- shift_row), None) whole) stride_arr)
            else setitem row_arr (None, Some shift_row) whole
                   (getitem arr (Some (- shift_row), None) whole))
         else setitem row_arr whole whole (getitem arr whole whole))"

text \<open>
  The column pass (source lines 68 to 89). The zero array it starts from has the
  shape of the original \<open>arr\<close>, not of \<open>row_arr\<close>.
\<close>

definition shift_cols ::
  "('a::zero) ndarray \<Rightarrow> 'a ndarray \<Rightarrow> int \<Rightarrow> int \<Rightarrow> error + 'a ndarray" where
  "shift_cols arr row_arr shift_col stride =
     (let quot = (let quot = \<bar>shift_col\<bar> div stride; rem = shift_col mod stride
                  in if rem \<noteq> 0 then quot + 1 else quot);
          new_arr = zeros_like arr
      in if shift_col > 0 then
           (if stride > 0 then
              and_then (tile (getitem row_arr whole (None, Some stride)) 1 quot)
                (\<lambda>t. let stride_arr = getitem t whole (Some (- shift_col), None)
                      in hstack stride_arr (getitem row_arr whole (None, Some (- shift_col))))
            else setitem new_arr whole (Some shift_col, None)
                   (getitem row_arr whole (None, Some (- shift_col))))
         else if shift_col < 0 then
           (if stride > 0 then
              and_then (tile (getitem row_arr whole (Some (- stride), None)) 1 quot)
                (\<lambda>t. let stride_arr = getitem t whole (None, Some (- shift_col))
                      in hstack (getitem row_arr whole (Some (- shift_col), None)) stride_arr)
            else setitem new_arr whole (None, Some shift_col)
                   (getitem row_arr whole (Some (- shift_col), None)))
         else setitem new_arr whole whole (getitem row_arr whole whole))"

definition shift_2d :: "('a::zero) ndarray \<Rightarrow> int \<times> int \<Rightarrow> int \<Rightarrow> error + 'a ndarray" where
  "shift_2d arr shifts stride =
     (case shifts of (shift_row, shift_col) \<Rightarrow>
        and_then (shift_rows arr shift_row stride)
          (\<lambda>row_arr. shift_cols arr row_arr shift_col stride))"

section \<open>\<open>add_border_2d\<close>\<close>

text \<open>
  The four fills of the \<open>stride > 0\<close> branch (source lines 132 to 147). Each reads a
  block of the array as it is at that moment, tiles a copy of it and writes the
  first \<open>border_width\<close> rows or columns of the copy into one border.
\<close>

definition fill_top :: "'a ndarray \<Rightarrow> int \<Rightarrow> int \<Rightarrow> int \<Rightarrow> error + 'a ndarray" where
  "fill_top new_arr border_width stride quot =
     (let arr_t = getitem new_arr (Some border_width, Some (border_width + stride)) whole
      in and_then (tile arr_t quot 1)
           (\<lambda>t. setitem new_arr (None, Some border_width) whole
                   (getitem t (None, Some border_width) whole)))"

definition fill_bottom :: "'a ndarray \<Rightarrow> int \<Rightarrow> int \<Rightarrow> int \<Rightarrow> error + 'a ndarray" where
  "fill_bottom new_arr border_width stride quot =
     (let arr_b = getitem new_arr (Some (- (border_width + stride)), Some (- border_width)) whole
      in and_then (tile arr_b quot 1)
           (\<lambda>t. setitem new_arr (Some (- border_width), None) whole
                   (getitem t (None, Some border_width) whole)))"

definition fill_left :: "'a ndarray \<Rightarrow> int \<Rightarrow> int \<Rightarrow> int \<Rightarrow> error + 'a ndarray" where
  "fill_left new_arr border_width stride quot =
     (let arr_l = getitem new_arr whole (Some border_width, Some (border_width + stride))
      in and_then (tile arr_l 1 quot)
           (\<lambda>t. setitem new_arr whole (None, Some border_width)
                   (getitem t whole (None, Some border_width))))"

definition fill_right :: "'a ndarray \<Rightarrow> int \<Rightarrow> int \<Rightarrow> int \<Rightarrow> error + 'a ndarray" where
  "fill_right new_arr border_width stride quot =
     (let arr_b = getitem new_arr whole (Some (- (border_width + stride)), Some (- border_width))
      in and_then (tile arr_b 1 quot)
           (\<lambda>t. setitem new_arr whole (Some (- border_width), None)
                   (getitem t whole (None, Some border_width))))"

definition add_border_2d :: "('a::zero) ndarray \<Rightarrow> int \<Rightarrow> int \<Rightarrow> error + 'a ndarray" where
  "add_border_2d arr border_width stride =
     (let new_x = int (nrows arr) + border_width * 2;
          new_y = int (ncols arr) + border_width * 2
      in and_then (zeros new_x new_y)
        (\<lambda>new_arr.
           and_then (setitem new_arr (Some border_width, Some (- border_width))
                       (Some border_width, Some (- border_width)) arr)
             (\<lambda>new_arr.
                if stride > 0 then
                  (let quot = (let quot = border_width div stride; rem = border_width mod stride
                               in if rem \<noteq> 0 then quot + 1 else quot)
                   in and_then (fill_top new_arr border_width stride quot)
                        (\<lambda>new_arr. and_then (fill_bottom new_arr border_width stride quot)
                           (\<lambda>new_arr. and_then (fill_left new_arr border_width stride quot)
                              (\<lambda>new_arr. fill_right new_arr border_width stride quot))))
                else Inr new_arr)))"

section \<open>The demonstration grid\<close>

text \<open>The 6 by 6 grid of the values 1 to 36 in row-major order, of type \<open>uint16\<close>.\<close>

definition grid6 :: "16 word ndarray" where
  "grid6 = mk_array 6 6 (\<lambda>i j. of_nat (6 * i + j + 1))"

section \<open>Closed forms used in the proofs\<close>

text \<open>
  The number of copies of a block of \<open>s\<close> rows that the source tiles to cover
  \<open>k\<close> rows: \<open>k // s\<close>, plus one when there is a remainder.
\<close>

definition tiles_needed :: "nat \<Rightarrow> nat \<Rightarrow> nat" where
  "tiles_needed k s = (if s dvd k then k div s else Suc (k div s))"

text \<open>
  What each step of \<open>add_border_2d\<close> produces when \<open>border_width = b > 0\<close>: the
  zero array with the input written into its centre, and that array after each of the
  four fills with \<open>stride = s > 0\<close>.
\<close>

definition centred :: "('a::zero) ndarray \<Rightarrow> nat \<Rightarrow> 'a ndarray" where
  "centred g b = mk_array (nrows g + 2 * b) (ncols g + 2 * b)
     (\<lambda>i j. if b \<le> i \<and> i < b + nrows g \<and> b \<le> j \<and> j < b + ncols g
             then cell g (i - b) (j - b) else 0)"

definition top_filled :: "'a ndarray \<Rightarrow> nat \<Rightarrow> nat \<Rightarrow> 'a ndarray" where
  "top_filled a b s = mk_array (nrows a) (ncols a)
     (\<lambda>i j. if i < b then cell a (b + i mod min s (nrows a - b)) j else cell a i j)"

definition bottom_filled :: "'a ndarray \<Rightarrow> nat \<Rightarrow> nat \<Rightarrow> 'a ndarray" where
  "bottom_filled a b s = mk_array (nrows a) (ncols a)
     (\<lambda>i j. if nrows a - b \<le> i
             then cell a (nrows a - b - min s (nrows a - b)
                            + (i - (nrows a - b)) mod min s (nrows a - b)) j
             else cell a i j)"

definition left_filled :: "'a ndarray \<Rightarrow> nat \<Rightarrow> nat \<Rightarrow> 'a ndarray" where
  "left_filled a b s = mk_array (nrows a) (ncols a)
     (\<lambda>i j. if j < b then cell a i (b + j mod min s (ncols a - b)) else cell a i j)"

definition right_filled :: "'a ndarray \<Rightarrow> nat \<Rightarrow> nat \<Rightarrow> 'a ndarray" where
  "right_filled a b s = mk_array (nrows a) (ncols a)
     (\<lambda>i j. if ncols a - b \<le> j
             then cell a i (ncols a - b - min s (ncols a - b)
                              + (j - (ncols a - b)) mod min s (ncols a - b))
             else cell a i j)"

definition tiled_border :: "('a::zero) ndarray \<Rightarrow> nat \<Rightarrow> nat \<Rightarrow> 'a ndarray" where
  "tiled_border g b s =
     right_filled (left_filled (bottom_filled (top_filled (centred g b) b s) b s) b s) b s"

section \<open>Values held by an array\<close>

text \<open>
  The set of the elements of an array, and the arrays all of whose elements are zero
  or taken from a given set.
\<close>

definition values_of :: "'a ndarray \<Rightarrow> 'a set" where
  "values_of a = set (concat (elems a))"

definition moved_from :: "'a set \<Rightarrow> ('a::zero) ndarray \<Rightarrow> bool" where
  "moved_from S a \<longleftrightarrow> well_shaped a \<and> values_of a \<subseteq> insert 0 S"

section \<open>A grid with rows and columns of period 2\<close>

text \<open>
  A 4 by 4 colour-filter mosaic: rows alternate between \<open>1 2 1 2\<close> and
  \<open>3 4 3 4\<close>.
\<close>

definition bayer4 :: "16 word ndarray" where
  "bayer4 = mk_array 4 4 (\<lambda>i j. of_nat (2 * (i mod 2) + j mod 2 + 1))"

section \<open>Periodic grids\<close>

text \<open>
  Rows repeat with period \<open>p\<close> when each row equals the row \<open>p\<close> places below
  it; likewise for columns.
\<close>

definition row_periodic :: "nat \<Rightarrow> 'a ndarray \<Rightarrow> bool" where
  "row_periodic p a \<longleftrightarrow>
     list_all (\<lambda>i. list_all (\<lambda>j. cell a (i + p) j = cell a i j) [0..<ncols a])
       [0..<nrows a - p]"

definition col_periodic :: "nat \<Rightarrow> 'a ndarray \<Rightarrow> bool" where
  "col_periodic p a \<longleftrightarrow>
     list_all (\<lambda>i. list_all (\<lambda>j. cell a i (j + p) = cell a i j) [0..<ncols a - p])
       [0..<nrows a]"

text \<open>
  For \<open>0 < s \<le> n\<close>: the row (column) of an \<open>n\<close>-row input that ends up in row
  \<open>i\<close> of the bordered grid, as \<open>add_border_2d\<close> with \<open>border_width = b\<close> and
  \<open>stride = s\<close> fills it.
\<close>

definition border_source :: "nat \<Rightarrow> nat \<Rightarrow> nat \<Rightarrow> nat \<Rightarrow> nat" where
  "border_source b s n i =
     (if i < b then i mod s
      else if n + b \<le> i then n - s + (i - (n + b)) mod s
      else i - b)"

section \<open>Basic facts about arrays, slices and the primitives\<close>

lemma nrows_mk_array [simp]: "nrows (mk_array r c f) = r"
  by (simp add: mk_array_def)

lemma ncols_mk_array [simp]: "ncols (mk_array r c f) = c"
  by (simp add: mk_array_def)

lemma well_shaped_mk_array [simp]: "well_shaped (mk_array r c f)"
  by (simp add: well_shaped_def mk_array_def list_all_iff)

lemma cell_mk_array [simp]: "i < r \<Longrightarrow> j < c \<Longrightarrow> cell (mk_array r c f) i j = f i j"
  by (simp add: cell_def mk_array_def)

lemma mk_array_cong:
  assumes "\<And>i j. i < r \<Longrightarrow> j < c \<Longrightarrow> f i j = g i j"
  shows "mk_array r c f = mk_array r c g"
  using assms by (simp add: mk_array_def)

lemma mk_array_cell:
  assumes "well_shaped a"
  shows "mk_array (nrows a) (ncols a) (cell a) = a"
proof -
  have len: "length (elems a) = nrows a"
    and row: "\<And>i. i < nrows a \<Longrightarrow> length (elems a ! i) = ncols a"
    using assms by (auto simp: well_shaped_def list_all_length)
  have "map (\<lambda>i. map (cell a i) [0..<ncols a]) [0..<nrows a] = elems a"
  proof (rule nth_equalityI)
    show "length (map (\<lambda>i. map (cell a i) [0..<ncols a]) [0..<nrows a]) = length (elems a)"
      by (simp add: len)
  next
    fix i
    assume "i < length (map (\<lambda>i. map (cell a i) [0..<ncols a]) [0..<nrows a])"
    then have i: "i < nrows a" by simp
    have "map (cell a i) [0..<ncols a] = elems a ! i"
      by (rule nth_equalityI) (simp_all add: row [OF i] cell_def)
    then show "map (\<lambda>i. map (cell a i) [0..<ncols a]) [0..<nrows a] ! i = elems a ! i"
      using i by simp
  qed
  then show ?thesis
    by (simp add: mk_array_def)
qed

lemma array_eqI:
  assumes "well_shaped a" and "well_shaped b"
    and "nrows a = nrows b" and "ncols a = ncols b"
    and "\<And>i j. i < nrows a \<Longrightarrow> j < ncols a \<Longrightarrow> cell a i j = cell b i j"
  shows "a = b"
proof -
  have "a = mk_array (nrows a) (ncols a) (cell a)"
    using assms(1) by (simp add: mk_array_cell)
  also have "\<dots> = mk_array (nrows a) (ncols a) (cell b)"
    by (rule mk_array_cong) (rule assms(5))
  also have "\<dots> = mk_array (nrows b) (ncols b) (cell b)"
    using assms(3,4) by simp
  also have "\<dots> = b"
    using assms(2) by (simp add: mk_array_cell)
  finally show ?thesis .
qed

lemma and_then_Inr [simp]: "and_then (Inr v) f = f v"
  by (simp add: and_then_def)

lemma and_then_Inl [simp]: "and_then (Inl e) f = Inl e"
  by (simp add: and_then_def)

subsection \<open>Slices\<close>

lemma slice_whole [simp]: "slice_start whole n = 0" "slice_len whole n = n"
  by (simp_all add: slice_start_def slice_len_def slice_stop_def)

lemma slice_start_le: "slice_start s n \<le> n"
  by (cases s) (auto simp: slice_start_def adjust_index_def split: option.splits)

lemma slice_stop_le: "slice_stop s n \<le> n"
  by (cases s) (auto simp: slice_stop_def adjust_index_def split: option.splits)

lemma slice_in_range: "i < slice_len s n \<Longrightarrow> slice_start s n + i < n"
  using slice_stop_le [of s n] by (simp add: slice_len_def)

lemma slice_upto [simp]:
  "slice_start (None, Some (int k)) n = 0" "slice_len (None, Some (int k)) n = min k n"
  by (auto simp: slice_start_def slice_len_def slice_stop_def adjust_index_def)

lemma slice_from [simp]:
  "slice_start (Some (int k), None) n = min k n" "slice_len (Some (int k), None) n = n - k"
  by (auto simp: slice_start_def slice_len_def slice_stop_def adjust_index_def)

lemma slice_drop_last [simp]:
  "0 < k \<Longrightarrow> slice_start (None, Some (- int k)) n = 0"
  "0 < k \<Longrightarrow> slice_len (None, Some (- int k)) n = n - k"
  by (auto simp: slice_start_def slice_len_def slice_stop_def adjust_index_def)

lemma slice_last [simp]:
  "0 < k \<Longrightarrow> slice_start (Some (- int k), None) n = n - k"
  "0 < k \<Longrightarrow> slice_len (Some (- int k), None) n = min k n"
  by (auto simp: slice_start_def slice_len_def slice_stop_def adjust_index_def)

subsection \<open>The primitives on well-shaped arrays\<close>

lemma zeros_like_simps [simp]:
  "nrows (zeros_like a) = nrows a" "ncols (zeros_like a) = ncols a"
  "well_shaped (zeros_like a)"
  by (simp_all add: zeros_like_def)

lemma cell_zeros_like [simp]:
  "i < nrows a \<Longrightarrow> j < ncols a \<Longrightarrow> cell (zeros_like a) i j = 0"
  by (simp add: zeros_like_def)

lemma getitem_simps [simp]:
  "nrows (getitem a rs cs) = slice_len rs (nrows a)"
  "ncols (getitem a rs cs) = slice_len cs (ncols a)"
  "well_shaped (getitem a rs cs)"
  by (simp_all add: getitem_def)

lemma cell_getitem [simp]:
  "i < slice_len rs (nrows a) \<Longrightarrow> j < slice_len cs (ncols a) \<Longrightarrow>
   cell (getitem a rs cs) i j = cell a (slice_start rs (nrows a) + i) (slice_start cs (ncols a) + j)"
  by (simp add: getitem_def)

lemma getitem_whole [simp]: "well_shaped a \<Longrightarrow> getitem a whole whole = a"
  by (rule array_eqI) simp_all

lemma setitem_same_shape:
  assumes "nrows src = slice_len rs (nrows a)" and "ncols src = slice_len cs (ncols a)"
  shows "setitem a rs cs src =
     Inr (mk_array (nrows a) (ncols a)
       (\<lambda>i j. if slice_start rs (nrows a) \<le> i
                  \<and> i < slice_start rs (nrows a) + slice_len rs (nrows a)
                  \<and> slice_start cs (ncols a) \<le> j
                  \<and> j < slice_start cs (ncols a) + slice_len cs (ncols a)
               then cell src (i - slice_start rs (nrows a)) (j - slice_start cs (ncols a))
               else cell a i j))"
  unfolding setitem_def broadcast_to_def using assms
  by (auto intro!: mk_array_cong)

lemma and_then_InrE:
  assumes "and_then r f = Inr out"
  obtains v where "r = Inr v" and "f v = Inr out"
  using assms by (cases r) simp_all

lemma and_then_return [simp]: "and_then r Inr = r"
  by (cases r) simp_all

lemma setitem_shape:
  assumes "setitem a rs cs src = Inr out"
  shows "nrows out = nrows a" and "ncols out = ncols a" and "well_shaped out"
proof -
  from assms obtain v where "out = mk_array (nrows a) (ncols a)
          (\<lambda>i j. if slice_start rs (nrows a) \<le> i
                     \<and> i < slice_start rs (nrows a) + slice_len rs (nrows a)
                     \<and> slice_start cs (ncols a) \<le> j
                     \<and> j < slice_start cs (ncols a) + slice_len cs (ncols a)
                  then cell v (i - slice_start rs (nrows a)) (j - slice_start cs (ncols a))
                  else cell a i j)"
    unfolding setitem_def by (auto elim!: and_then_InrE)
  then show "nrows out = nrows a" and "ncols out = ncols a" and "well_shaped out"
    by simp_all
qed

lemma well_shaped_grid6: "well_shaped grid6"
  by (simp add: grid6_def)

lemma shape_grid6: "nrows grid6 = 6" "ncols grid6 = 6"
  by (simp_all add: grid6_def)

section \<open>What \<open>shift_2d\<close> computes\<close>

lemma int_sign_cases:
  obtains (pos) k where "0 < k" "z = int k"
    | (neg) k where "0 < k" "z = - int k"
    | (zero) "z = 0"
proof (cases "0 < z")
  case True
  then have "0 < nat z" "z = int (nat z)" by simp_all
  then show ?thesis by (rule pos)
next
  case False
  show ?thesis
  proof (cases "z < 0")
    case True
    then have "0 < nat (- z)" "z = - int (nat (- z))" by simp_all
    then show ?thesis by (rule neg)
  next
    case False
    with \<open>\<not> 0 < z\<close> have "z = 0" by simp
    then show ?thesis by (rule zero)
  qed
qed

lemma nat_int_diff [simp]: "nat (int i - int k) = i - k"
  by arith

lemma nat_int_sum [simp]: "nat (int i + int k) = i + k"
  by arith

lemma int_sum_less [simp]: "int i + int k < int n \<longleftrightarrow> i + k < n"
  by arith

lemma shift_rows_zero_fill:
  assumes "well_shaped arr" and "stride \<le> 0"
  shows "shift_rows arr shift_row stride =
     Inr (mk_array (nrows arr) (ncols arr)
       (\<lambda>i j. if shift_row \<le> int i \<and> int i - shift_row < int (nrows arr)
               then cell arr (nat (int i - shift_row)) j else 0))"
proof -
  show ?thesis
  proof (cases shift_row rule: int_sign_cases)
    case (pos k)
    have "shift_rows arr shift_row stride =
        setitem (zeros_like arr) (Some (int k), None) whole
          (getitem arr (None, Some (- int k)) whole)"
      using pos assms(2) by (simp add: shift_rows_def Let_def)
    also have "\<dots> = Inr (mk_array (nrows arr) (ncols arr)
       (\<lambda>i j. if shift_row \<le> int i \<and> int i - shift_row < int (nrows arr)
               then cell arr (nat (int i - shift_row)) j else 0))"
      using pos by (subst setitem_same_shape) (auto intro!: mk_array_cong simp: min_def)
    finally show ?thesis .
  next
    case (neg k)
    have "shift_rows arr shift_row stride =
        setitem (zeros_like arr) (None, Some (- int k)) whole
          (getitem arr (Some (int k), None) whole)"
      using neg assms(2) by (simp add: shift_rows_def Let_def)
    also have "\<dots> = Inr (mk_array (nrows arr) (ncols arr)
       (\<lambda>i j. if shift_row \<le> int i \<and> int i - shift_row < int (nrows arr)
               then cell arr (nat (int i - shift_row)) j else 0))"
      using neg by (subst setitem_same_shape) (auto intro!: mk_array_cong simp: min_def ac_simps less_diff_conv)
    finally show ?thesis .
  next
    case zero
    have "shift_rows arr shift_row stride = setitem (zeros_like arr) whole whole arr"
      using zero assms by (simp add: shift_rows_def Let_def)
    also have "\<dots> = Inr (mk_array (nrows arr) (ncols arr)
       (\<lambda>i j. if shift_row \<le> int i \<and> int i - shift_row < int (nrows arr)
               then cell arr (nat (int i - shift_row)) j else 0))"
      using zero by (subst setitem_same_shape) (auto intro!: mk_array_cong)
    finally show ?thesis .
  qed
qed

lemma quot_pos:
  "0 < s \<Longrightarrow>
   (let quot = \<bar>int k\<bar> div int s; rem = int k mod int s in if rem \<noteq> 0 then quot + 1 else quot)
     = int (tiles_needed k s)"
  by (auto simp: tiles_needed_def Let_def zdiv_int [symmetric] zmod_int [symmetric] mod_eq_0_iff_dvd
           simp del: of_nat_div of_nat_mod)

lemma quot_neg:
  "0 < s \<Longrightarrow>
   (let quot = \<bar>- int k\<bar> div int s; rem = (- int k) mod int s in if rem \<noteq> 0 then quot + 1 else quot)
     = int (tiles_needed k s)"
  by (auto simp: tiles_needed_def Let_def zdiv_int [symmetric] mod_eq_0_iff_dvd
           simp del: of_nat_div)

lemma quot_border:
  "0 < s \<Longrightarrow>
   (let quot = int k div int s; rem = int k mod int s in if rem \<noteq> 0 then quot + 1 else quot)
     = int (tiles_needed k s)"
  using quot_pos [of s k] by simp

lemma tiles_cover:
  assumes "0 < s"
  shows "k \<le> tiles_needed k s * s"
proof (cases "s dvd k")
  case True
  then show ?thesis by (simp add: tiles_needed_def)
next
  case False
  have split: "k div s * s + k mod s = k" by simp
  have "k mod s < s" using assms by simp
  with split have "k \<le> k div s * s + s" by linarith
  then show ?thesis using False by (simp add: tiles_needed_def)
qed

lemma tiles_cover_clamped:
  assumes "0 < s" and "0 < k" and "k \<le> n"
  shows "k \<le> tiles_needed k s * min s n"
proof (cases "s \<le> n")
  case True
  then show ?thesis using tiles_cover [OF assms(1), of k] by (simp add: min_def)
next
  case False
  have "1 \<le> tiles_needed k s"
    using assms(1,2) by (auto simp: tiles_needed_def elim: dvdE)
  then have le: "n \<le> tiles_needed k s * n"
    by (cases "tiles_needed k s") auto
  have m: "min s n = n" using False by simp
  show ?thesis unfolding m using assms(3) le by (rule order_trans)
qed

lemma tile_rows:
  "tile a (int q) 1 = Inr (mk_array (q * nrows a) (ncols a)
      (\<lambda>i j. cell a (i mod nrows a) j))"
  unfolding tile_def by (auto intro!: mk_array_cong)

lemma tile_cols:
  "tile a 1 (int q) = Inr (mk_array (nrows a) (q * ncols a)
      (\<lambda>i j. cell a i (j mod ncols a)))"
  unfolding tile_def by (auto intro!: mk_array_cong)

lemma mk_array_eqI:
  assumes "r = r'" and "c = c'" and "\<And>i j. i < r \<Longrightarrow> j < c \<Longrightarrow> f i j = g i j"
  shows "mk_array r c f = mk_array r' c' g"
  using assms by (simp add: mk_array_def)

lemma shift_rows_down_tiled:
  assumes "well_shaped arr" and "0 < s" and "0 < k" and "k \<le> nrows arr"
  shows "shift_rows arr (int k) (int s) =
     Inr (mk_array (nrows arr) (ncols arr)
       (\<lambda>i j. if i < k
               then cell arr ((tiles_needed k s * min s (nrows arr) - k + i) mod min s (nrows arr)) j
               else cell arr (i - k) j))"
proof -
  have q: "(let quot = \<bar>int k\<bar> div int s; rem = int k mod int s
            in if rem \<noteq> 0 then quot + 1 else quot) = int (tiles_needed k s)"
    using assms(2) by (rule quot_pos)
  have T: "k \<le> tiles_needed k s * min s (nrows arr)"
    using assms(2-4) by (rule tiles_cover_clamped)
  have m: "0 < min s (nrows arr)"
    using assms(2-4) by simp
  show ?thesis
    unfolding shift_rows_def q using assms T m
    apply (simp add: Let_def tile_rows vstack_def)
    apply (rule mk_array_eqI)
      apply simp
     apply simp
    apply (auto simp: min_def)
    done
qed

lemma shift_rows_up_tiled:
  assumes "well_shaped arr" and "0 < s" and "0 < k" and "k \<le> nrows arr"
  shows "shift_rows arr (- int k) (int s) =
     Inr (mk_array (nrows arr) (ncols arr)
       (\<lambda>i j. if i < nrows arr - k
               then cell arr (k + i) j
               else cell arr (nrows arr - min s (nrows arr)
                                + (i - (nrows arr - k)) mod min s (nrows arr)) j))"
proof -
  have q: "(let quot = \<bar>- int k\<bar> div int s; rem = (- int k) mod int s
            in if rem \<noteq> 0 then quot + 1 else quot) = int (tiles_needed k s)"
    using assms(2) by (rule quot_neg)
  have T: "k \<le> tiles_needed k s * min s (nrows arr)"
    using assms(2-4) by (rule tiles_cover_clamped)
  have m: "0 < min s (nrows arr)"
    using assms(2-4) by simp
  show ?thesis
    unfolding shift_rows_def q using assms T m
    apply (simp add: Let_def tile_rows vstack_def)
    apply (rule mk_array_eqI)
      apply simp
     apply simp
    apply (auto simp: min_def)
    done
qed

lemma shift_cols_zero_fill:
  assumes "well_shaped row_arr" and "nrows row_arr = nrows arr" and "ncols row_arr = ncols arr"
    and "stride \<le> 0"
  shows "shift_cols arr row_arr shift_col stride =
     Inr (mk_array (nrows arr) (ncols arr)
       (\<lambda>i j. if shift_col \<le> int j \<and> int j - shift_col < int (ncols arr)
               then cell row_arr i (nat (int j - shift_col)) else 0))"
proof (cases shift_col rule: int_sign_cases)
  case (pos k)
  have "shift_cols arr row_arr shift_col stride =
      setitem (zeros_like arr) whole (Some (int k), None)
        (getitem row_arr whole (None, Some (- int k)))"
    using pos assms(4) by (simp add: shift_cols_def Let_def)
  also have "\<dots> = Inr (mk_array (nrows arr) (ncols arr)
     (\<lambda>i j. if shift_col \<le> int j \<and> int j - shift_col < int (ncols arr)
             then cell row_arr i (nat (int j - shift_col)) else 0))"
    using pos assms(1-3)
    by (subst setitem_same_shape) (auto intro!: mk_array_cong simp: min_def)
  finally show ?thesis .
next
  case (neg k)
  have "shift_cols arr row_arr shift_col stride =
      setitem (zeros_like arr) whole (None, Some (- int k))
        (getitem row_arr whole (Some (int k), None))"
    using neg assms(4) by (simp add: shift_cols_def Let_def)
  also have "\<dots> = Inr (mk_array (nrows arr) (ncols arr)
     (\<lambda>i j. if shift_col \<le> int j \<and> int j - shift_col < int (ncols arr)
             then cell row_arr i (nat (int j - shift_col)) else 0))"
    using neg assms(1-3)
    by (subst setitem_same_shape)
       (auto intro!: mk_array_cong simp: min_def ac_simps less_diff_conv)
  finally show ?thesis .
next
  case zero
  have "shift_cols arr row_arr shift_col stride = setitem (zeros_like arr) whole whole row_arr"
    using zero assms by (simp add: shift_cols_def Let_def)
  also have "\<dots> = Inr (mk_array (nrows arr) (ncols arr)
     (\<lambda>i j. if shift_col \<le> int j \<and> int j - shift_col < int (ncols arr)
             then cell row_arr i (nat (int j - shift_col)) else 0))"
    using zero assms(1-3) by (subst setitem_same_shape) (auto intro!: mk_array_cong)
  finally show ?thesis .
qed

lemma shift_cols_right_tiled:
  assumes "well_shaped row_arr" and "0 < s" and "0 < k" and "k \<le> ncols row_arr"
  shows "shift_cols arr row_arr (int k) (int s) =
     Inr (mk_array (nrows row_arr) (ncols row_arr)
       (\<lambda>i j. if j < k
               then cell row_arr i
                      ((tiles_needed k s * min s (ncols row_arr) - k + j) mod min s (ncols row_arr))
               else cell row_arr i (j - k)))"
proof -
  have q: "(let quot = \<bar>int k\<bar> div int s; rem = int k mod int s
            in if rem \<noteq> 0 then quot + 1 else quot) = int (tiles_needed k s)"
    using assms(2) by (rule quot_pos)
  have T: "k \<le> tiles_needed k s * min s (ncols row_arr)"
    using assms(2-4) by (rule tiles_cover_clamped)
  have m: "0 < min s (ncols row_arr)"
    using assms(2-4) by simp
  show ?thesis
    unfolding shift_cols_def q using assms T m
    apply (simp add: Let_def tile_cols hstack_def)
    apply (rule mk_array_eqI)
      apply simp
     apply simp
    apply (auto simp: min_def)
    done
qed

lemma shift_cols_left_tiled:
  assumes "well_shaped row_arr" and "0 < s" and "0 < k" and "k \<le> ncols row_arr"
  shows "shift_cols arr row_arr (- int k) (int s) =
     Inr (mk_array (nrows row_arr) (ncols row_arr)
       (\<lambda>i j. if j < ncols row_arr - k
               then cell row_arr i (k + j)
               else cell row_arr i (ncols row_arr - min s (ncols row_arr)
                                + (j - (ncols row_arr - k)) mod min s (ncols row_arr))))"
proof -
  have q: "(let quot = \<bar>- int k\<bar> div int s; rem = (- int k) mod int s
            in if rem \<noteq> 0 then quot + 1 else quot) = int (tiles_needed k s)"
    using assms(2) by (rule quot_neg)
  have T: "k \<le> tiles_needed k s * min s (ncols row_arr)"
    using assms(2-4) by (rule tiles_cover_clamped)
  have m: "0 < min s (ncols row_arr)"
    using assms(2-4) by simp
  show ?thesis
    unfolding shift_cols_def q using assms T m
    apply (simp add: Let_def tile_cols hstack_def)
    apply (rule mk_array_eqI)
      apply simp
     apply simp
    apply (auto simp: min_def)
    done
qed

lemma shift_rows_unshifted:
  assumes "well_shaped arr"
  shows "shift_rows arr 0 stride = Inr arr"
proof -
  have "shift_rows arr 0 stride = setitem (zeros_like arr) whole whole arr"
    using assms by (simp add: shift_rows_def Let_def)
  also have "\<dots> = Inr (mk_array (nrows arr) (ncols arr) (cell arr))"
    by (subst setitem_same_shape) (auto intro!: mk_array_cong)
  finally show ?thesis
    using assms by (simp add: mk_array_cell)
qed

lemma shift_cols_unshifted:
  assumes "well_shaped row_arr" and "nrows row_arr = nrows arr" and "ncols row_arr = ncols arr"
  shows "shift_cols arr row_arr 0 stride = Inr row_arr"
proof -
  have "shift_cols arr row_arr 0 stride = setitem (zeros_like arr) whole whole row_arr"
    using assms by (simp add: shift_cols_def Let_def)
  also have "\<dots> = Inr (mk_array (nrows row_arr) (ncols row_arr) (cell row_arr))"
    using assms by (subst setitem_same_shape) (auto intro!: mk_array_eqI)
  also have "\<dots> = Inr row_arr"
    using assms(1) by (simp add: mk_array_cell)
  finally show ?thesis .
qed

lemma shift_2d_zero_fill:
  assumes "well_shaped arr" and "stride \<le> 0"
  shows "shift_2d arr (shift_row, shift_col) stride =
     Inr (mk_array (nrows arr) (ncols arr)
       (\<lambda>i j. if shift_row \<le> int i \<and> int i - shift_row < int (nrows arr)
                  \<and> shift_col \<le> int j \<and> int j - shift_col < int (ncols arr)
               then cell arr (nat (int i - shift_row)) (nat (int j - shift_col)) else 0))"
proof -
  define row_arr where "row_arr = mk_array (nrows arr) (ncols arr)
       (\<lambda>i j. if shift_row \<le> int i \<and> int i - shift_row < int (nrows arr)
               then cell arr (nat (int i - shift_row)) j else 0)"
  have rows: "shift_rows arr shift_row stride = Inr row_arr"
    unfolding row_arr_def using assms by (rule shift_rows_zero_fill)
  have shape: "well_shaped row_arr" "nrows row_arr = nrows arr" "ncols row_arr = ncols arr"
    by (simp_all add: row_arr_def)
  have cols: "shift_cols arr row_arr shift_col stride =
     Inr (mk_array (nrows arr) (ncols arr)
       (\<lambda>i j. if shift_col \<le> int j \<and> int j - shift_col < int (ncols arr)
               then cell row_arr i (nat (int j - shift_col)) else 0))"
    using shape assms(2) by (rule shift_cols_zero_fill)
  have "shift_2d arr (shift_row, shift_col) stride = shift_cols arr row_arr shift_col stride"
    by (simp add: shift_2d_def rows)
  also have "\<dots> = Inr (mk_array (nrows arr) (ncols arr)
       (\<lambda>i j. if shift_row \<le> int i \<and> int i - shift_row < int (nrows arr)
                  \<and> shift_col \<le> int j \<and> int j - shift_col < int (ncols arr)
               then cell arr (nat (int i - shift_row)) (nat (int j - shift_col)) else 0))"
    unfolding cols
  proof (simp, rule mk_array_cong)
    fix i j
    assume i: "i < nrows arr" and j: "j < ncols arr"
    show "(if shift_col \<le> int j \<and> int j - shift_col < int (ncols arr)
           then cell row_arr i (nat (int j - shift_col)) else 0) =
          (if shift_row \<le> int i \<and> int i - shift_row < int (nrows arr)
                  \<and> shift_col \<le> int j \<and> int j - shift_col < int (ncols arr)
               then cell arr (nat (int i - shift_row)) (nat (int j - shift_col)) else 0)"
    proof (cases "shift_col \<le> int j \<and> int j - shift_col < int (ncols arr)")
      case True
      then have "nat (int j - shift_col) < ncols arr" by linarith
      then show ?thesis
        using True i by (simp add: row_arr_def)
    next
      case False
      then show ?thesis by auto
    qed
  qed
  finally show ?thesis .
qed

lemma shift_rows_in_range:
  assumes "well_shaped arr" and "\<bar>shift_row\<bar> \<le> int (nrows arr)"
  shows "\<exists>row_arr. shift_rows arr shift_row stride = Inr row_arr \<and> well_shaped row_arr
           \<and> nrows row_arr = nrows arr \<and> ncols row_arr = ncols arr"
proof (cases "stride \<le> 0")
  case True
  with assms(1) show ?thesis
    by (simp add: shift_rows_zero_fill)
next
  case False
  then obtain s where s: "0 < s" "stride = int s"
    by (cases stride rule: int_sign_cases) auto
  show ?thesis
  proof (cases shift_row rule: int_sign_cases)
    case (pos k)
    with assms have "k \<le> nrows arr" by simp
    with assms(1) s pos show ?thesis
      by (simp add: shift_rows_down_tiled)
  next
    case (neg k)
    with assms have "k \<le> nrows arr" by simp
    with assms(1) s neg show ?thesis
      by (simp add: shift_rows_up_tiled)
  next
    case zero
    with assms(1) show ?thesis
      by (simp add: shift_rows_unshifted)
  qed
qed

lemma shift_cols_in_range:
  assumes "well_shaped row_arr" and "nrows row_arr = nrows arr" and "ncols row_arr = ncols arr"
    and "\<bar>shift_col\<bar> \<le> int (ncols arr)"
  shows "\<exists>out. shift_cols arr row_arr shift_col stride = Inr out \<and> well_shaped out
           \<and> nrows out = nrows arr \<and> ncols out = ncols arr"
proof (cases "stride \<le> 0")
  case True
  with assms(1-3) show ?thesis
    by (simp add: shift_cols_zero_fill)
next
  case False
  then obtain s where s: "0 < s" "stride = int s"
    by (cases stride rule: int_sign_cases) auto
  show ?thesis
  proof (cases shift_col rule: int_sign_cases)
    case (pos k)
    with assms have "k \<le> ncols row_arr" by simp
    with assms(1-3) s pos show ?thesis
      by (simp add: shift_cols_right_tiled)
  next
    case (neg k)
    with assms have "k \<le> ncols row_arr" by simp
    with assms(1-3) s neg show ?thesis
      by (simp add: shift_cols_left_tiled)
  next
    case zero
    with assms(1-3) show ?thesis
      by (simp add: shift_cols_unshifted)
  qed
qed

lemma shift_2d_in_range:
  assumes "well_shaped arr"
    and "\<bar>shift_row\<bar> \<le> int (nrows arr)" and "\<bar>shift_col\<bar> \<le> int (ncols arr)"
  shows "\<exists>out. shift_2d arr (shift_row, shift_col) stride = Inr out \<and> well_shaped out
           \<and> nrows out = nrows arr \<and> ncols out = ncols arr"
proof -
  obtain row_arr where r: "shift_rows arr shift_row stride = Inr row_arr"
      "well_shaped row_arr" "nrows row_arr = nrows arr" "ncols row_arr = ncols arr"
    using shift_rows_in_range [OF assms(1,2)] by blast
  from shift_cols_in_range [OF r(2-4) assms(3)] r(1) show ?thesis
    by (simp add: shift_2d_def)
qed

lemma shift_rows_negative_stride:
  assumes "stride < 0"
  shows "shift_rows arr shift_row stride = shift_rows arr shift_row 0"
proof -
  have "(0 < stride) = False" using assms by simp
  then show ?thesis
    by (simp add: shift_rows_def Let_def)
qed

lemma shift_cols_negative_stride:
  assumes "stride < 0"
  shows "shift_cols arr row_arr shift_col stride = shift_cols arr row_arr shift_col 0"
proof -
  have "(0 < stride) = False" using assms by simp
  then show ?thesis
    by (simp add: shift_cols_def Let_def)
qed

lemma shift_2d_negative_stride:
  "stride < 0 \<Longrightarrow> shift_2d g sh stride = shift_2d g sh 0"
  by (simp add: shift_2d_def shift_rows_negative_stride shift_cols_negative_stride)

section \<open>What \<open>add_border_2d\<close> computes\<close>

lemma slice_between [simp]:
  "slice_start (Some (int b), Some (int b + int s)) n = min b n"
  "slice_len (Some (int b), Some (int b + int s)) n = min (b + s) n - min b n"
  by (auto simp: slice_start_def slice_len_def slice_stop_def adjust_index_def)

lemma slice_between_end [simp]:
  "0 < b \<Longrightarrow> slice_start (Some (- (int b + int s)), Some (- int b)) n = n - (b + s)"
  "0 < b \<Longrightarrow> slice_len (Some (- (int b + int s)), Some (- int b)) n = (n - b) - (n - (b + s))"
  by (auto simp: slice_start_def slice_len_def slice_stop_def adjust_index_def)

lemma slice_inner [simp]:
  "0 < b \<Longrightarrow> slice_start (Some (int b), Some (- int b)) n = min b n"
  "0 < b \<Longrightarrow> slice_len (Some (int b), Some (- int b)) n = (n - b) - min b n"
  by (auto simp: slice_start_def slice_len_def slice_stop_def adjust_index_def)

lemma fill_top_tiled:
  assumes "0 < b" and "0 < s" and "2 * b \<le> nrows a"
  shows "fill_top a (int b) (int s) (int (tiles_needed b s)) =
     Inr (mk_array (nrows a) (ncols a)
       (\<lambda>i j. if i < b then cell a (b + i mod min s (nrows a - b)) j else cell a i j))"
proof -
  define k where "k = min s (nrows a - b)"
  define q where "q = tiles_needed b s"
  have T: "b \<le> q * k"
    unfolding k_def q_def using assms by (intro tiles_cover_clamped) simp_all
  have len: "min (b + s) (nrows a) - min b (nrows a) = k"
    unfolding k_def using assms by arith
  have start: "min b (nrows a) = b"
    using assms by simp
  have len': "min (b + s) (nrows a) - b = k"
    using len start by simp
  have inb: "i mod k < k" for i
    unfolding k_def using assms by (intro mod_less_divisor) simp
  have block: "getitem a (Some (int b), Some (int b + int s)) whole =
      mk_array k (ncols a) (\<lambda>i j. cell a (b + i) j)"
    unfolding getitem_def by (rule mk_array_eqI) (simp_all only: slice_between slice_whole len len' start add_0)
  have tiled: "tile (mk_array k (ncols a) (\<lambda>i j. cell a (b + i) j)) (int q) 1 =
      Inr (mk_array (q * k) (ncols a) (\<lambda>i j. cell a (b + i mod k) j))"
    unfolding tile_rows by (simp, rule mk_array_cong) (simp add: inb)
  have crop: "getitem (mk_array (q * k) (ncols a) (\<lambda>i j. cell a (b + i mod k) j))
        (None, Some (int b)) whole =
      mk_array b (ncols a) (\<lambda>i j. cell a (b + i mod k) j)"
    unfolding getitem_def using T by (intro mk_array_eqI) simp_all
  have store: "setitem a (None, Some (int b)) whole
        (mk_array b (ncols a) (\<lambda>i j. cell a (b + i mod k) j)) =
      Inr (mk_array (nrows a) (ncols a)
        (\<lambda>i j. if i < b then cell a (b + i mod k) j else cell a i j))"
    using start by (subst setitem_same_shape) (auto intro!: mk_array_cong)
  show ?thesis
    unfolding fill_top_def k_def [symmetric] q_def [symmetric]
    by (simp only: Let_def block tiled and_then_Inr crop store)
qed

lemma fill_bottom_tiled:
  assumes "0 < b" and "0 < s" and "2 * b \<le> nrows a"
  shows "fill_bottom a (int b) (int s) (int (tiles_needed b s)) =
     Inr (mk_array (nrows a) (ncols a)
       (\<lambda>i j. if nrows a - b \<le> i
               then cell a (nrows a - b - min s (nrows a - b)
                              + (i - (nrows a - b)) mod min s (nrows a - b)) j
               else cell a i j))"
proof -
  define k where "k = min s (nrows a - b)"
  define q where "q = tiles_needed b s"
  have T: "b \<le> q * k"
    unfolding k_def q_def using assms by (intro tiles_cover_clamped) simp_all
  have len: "(nrows a - b) - (nrows a - (b + s)) = k"
    unfolding k_def using assms by arith
  have start: "nrows a - (b + s) = nrows a - b - k"
    unfolding k_def using assms by arith
  have len': "(nrows a - b) - (nrows a - b - k) = k"
    using len start by simp
  have inb: "i mod k < k" for i
    unfolding k_def using assms by (intro mod_less_divisor) simp
  have block: "getitem a (Some (- (int b + int s)), Some (- int b)) whole =
      mk_array k (ncols a) (\<lambda>i j. cell a (nrows a - b - k + i) j)"
    unfolding getitem_def
    by (rule mk_array_eqI)
       (simp_all only: slice_between_end [OF assms(1)] slice_whole len len' start add_0)
  have tiled: "tile (mk_array k (ncols a) (\<lambda>i j. cell a (nrows a - b - k + i) j)) (int q) 1 =
      Inr (mk_array (q * k) (ncols a) (\<lambda>i j. cell a (nrows a - b - k + i mod k) j))"
    unfolding tile_rows by (simp, rule mk_array_cong) (simp add: inb)
  have crop: "getitem (mk_array (q * k) (ncols a) (\<lambda>i j. cell a (nrows a - b - k + i mod k) j))
        (None, Some (int b)) whole =
      mk_array b (ncols a) (\<lambda>i j. cell a (nrows a - b - k + i mod k) j)"
    unfolding getitem_def using T by (intro mk_array_eqI) simp_all
  have store: "setitem a (Some (- int b), None) whole
        (mk_array b (ncols a) (\<lambda>i j. cell a (nrows a - b - k + i mod k) j)) =
      Inr (mk_array (nrows a) (ncols a)
        (\<lambda>i j. if nrows a - b \<le> i
                then cell a (nrows a - b - k + (i - (nrows a - b)) mod k) j
                else cell a i j))"
    using assms(1,3) by (subst setitem_same_shape) (auto intro!: mk_array_cong)
  show ?thesis
    unfolding fill_bottom_def k_def [symmetric] q_def [symmetric]
    by (simp only: Let_def block tiled and_then_Inr crop store)
qed

lemma fill_left_tiled:
  assumes "0 < b" and "0 < s" and "2 * b \<le> ncols a"
  shows "fill_left a (int b) (int s) (int (tiles_needed b s)) =
     Inr (mk_array (nrows a) (ncols a)
       (\<lambda>i j. if j < b then cell a i (b + j mod min s (ncols a - b)) else cell a i j))"
proof -
  define k where "k = min s (ncols a - b)"
  define q where "q = tiles_needed b s"
  have T: "b \<le> q * k"
    unfolding k_def q_def using assms by (intro tiles_cover_clamped) simp_all
  have len: "min (b + s) (ncols a) - min b (ncols a) = k"
    unfolding k_def using assms by arith
  have start: "min b (ncols a) = b"
    using assms by simp
  have len': "min (b + s) (ncols a) - b = k"
    using len start by simp
  have inb: "j mod k < k" for j
    unfolding k_def using assms by (intro mod_less_divisor) simp
  have block: "getitem a whole (Some (int b), Some (int b + int s)) =
      mk_array (nrows a) k (\<lambda>i j. cell a i (b + j))"
    unfolding getitem_def
    by (rule mk_array_eqI) (simp_all only: slice_between slice_whole len len' start add_0)
  have tiled: "tile (mk_array (nrows a) k (\<lambda>i j. cell a i (b + j))) 1 (int q) =
      Inr (mk_array (nrows a) (q * k) (\<lambda>i j. cell a i (b + j mod k)))"
    unfolding tile_cols by (simp, rule mk_array_cong) (simp add: inb)
  have crop: "getitem (mk_array (nrows a) (q * k) (\<lambda>i j. cell a i (b + j mod k)))
        whole (None, Some (int b)) =
      mk_array (nrows a) b (\<lambda>i j. cell a i (b + j mod k))"
    unfolding getitem_def using T by (intro mk_array_eqI) simp_all
  have store: "setitem a whole (None, Some (int b))
        (mk_array (nrows a) b (\<lambda>i j. cell a i (b + j mod k))) =
      Inr (mk_array (nrows a) (ncols a)
        (\<lambda>i j. if j < b then cell a i (b + j mod k) else cell a i j))"
    using start by (subst setitem_same_shape) (auto intro!: mk_array_cong)
  show ?thesis
    unfolding fill_left_def k_def [symmetric] q_def [symmetric]
    by (simp only: Let_def block tiled and_then_Inr crop store)
qed

lemma fill_right_tiled:
  assumes "0 < b" and "0 < s" and "2 * b \<le> ncols a"
  shows "fill_right a (int b) (int s) (int (tiles_needed b s)) =
     Inr (mk_array (nrows a) (ncols a)
       (\<lambda>i j. if ncols a - b \<le> j
               then cell a i (ncols a - b - min s (ncols a - b)
                                + (j - (ncols a - b)) mod min s (ncols a - b))
               else cell a i j))"
proof -
  define k where "k = min s (ncols a - b)"
  define q where "q = tiles_needed b s"
  have T: "b \<le> q * k"
    unfolding k_def q_def using assms by (intro tiles_cover_clamped) simp_all
  have len: "(ncols a - b) - (ncols a - (b + s)) = k"
    unfolding k_def using assms by arith
  have start: "ncols a - (b + s) = ncols a - b - k"
    unfolding k_def using assms by arith
  have len': "(ncols a - b) - (ncols a - b - k) = k"
    using len start by simp
  have inb: "j mod k < k" for j
    unfolding k_def using assms by (intro mod_less_divisor) simp
  have block: "getitem a whole (Some (- (int b + int s)), Some (- int b)) =
      mk_array (nrows a) k (\<lambda>i j. cell a i (ncols a - b - k + j))"
    unfolding getitem_def
    by (rule mk_array_eqI)
       (simp_all only: slice_between_end [OF assms(1)] slice_whole len len' start add_0)
  have tiled: "tile (mk_array (nrows a) k (\<lambda>i j. cell a i (ncols a - b - k + j))) 1 (int q) =
      Inr (mk_array (nrows a) (q * k) (\<lambda>i j. cell a i (ncols a - b - k + j mod k)))"
    unfolding tile_cols by (simp, rule mk_array_cong) (simp add: inb)
  have crop: "getitem (mk_array (nrows a) (q * k) (\<lambda>i j. cell a i (ncols a - b - k + j mod k)))
        whole (None, Some (int b)) =
      mk_array (nrows a) b (\<lambda>i j. cell a i (ncols a - b - k + j mod k))"
    unfolding getitem_def using T by (intro mk_array_eqI) simp_all
  have store: "setitem a whole (Some (- int b), None)
        (mk_array (nrows a) b (\<lambda>i j. cell a i (ncols a - b - k + j mod k))) =
      Inr (mk_array (nrows a) (ncols a)
        (\<lambda>i j. if ncols a - b \<le> j
                then cell a i (ncols a - b - k + (j - (ncols a - b)) mod k)
                else cell a i j))"
    using assms(1,3) by (subst setitem_same_shape) (auto intro!: mk_array_cong)
  show ?thesis
    unfolding fill_right_def k_def [symmetric] q_def [symmetric]
    by (simp only: Let_def block tiled and_then_Inr crop store)
qed

lemma filled_shapes [simp]:
  "nrows (centred g b) = nrows g + 2 * b" "ncols (centred g b) = ncols g + 2 * b"
  "nrows (top_filled a b s) = nrows a" "ncols (top_filled a b s) = ncols a"
  "nrows (bottom_filled a b s) = nrows a" "ncols (bottom_filled a b s) = ncols a"
  "nrows (left_filled a b s) = nrows a" "ncols (left_filled a b s) = ncols a"
  "nrows (right_filled a b s) = nrows a" "ncols (right_filled a b s) = ncols a"
  by (simp_all add: centred_def top_filled_def bottom_filled_def left_filled_def right_filled_def)

lemma filled_well_shaped [simp]:
  "well_shaped (centred g b)" "well_shaped (top_filled a b s)" "well_shaped (bottom_filled a b s)"
  "well_shaped (left_filled a b s)" "well_shaped (right_filled a b s)"
  by (simp_all add: centred_def top_filled_def bottom_filled_def left_filled_def right_filled_def)

lemma zeros_border:
  "zeros (int r + int b * 2) (int c + int b * 2) =
     Inr (mk_array (r + 2 * b) (c + 2 * b) (\<lambda>i j. 0))"
proof -
  have "nat (int r + int b * 2) = r + 2 * b" "nat (int c + int b * 2) = c + 2 * b"
    by arith+
  then show ?thesis
    by (simp add: zeros_def)
qed

lemma setitem_centre:
  assumes "0 < b"
  shows "setitem (mk_array (nrows g + 2 * b) (ncols g + 2 * b) (\<lambda>i j. 0))
           (Some (int b), Some (- int b)) (Some (int b), Some (- int b)) g = Inr (centred g b)"
  unfolding centred_def using assms
  by (subst setitem_same_shape) (auto intro!: mk_array_cong)

lemma add_border_2d_zero_fill:
  assumes "0 < b" and "stride \<le> 0"
  shows "add_border_2d g (int b) stride = Inr (centred g b)"
  unfolding add_border_2d_def using assms
  by (simp add: Let_def zeros_border setitem_centre)

lemma add_border_2d_tiled:
  assumes "0 < b" and "0 < s"
  shows "add_border_2d g (int b) (int s) =
     Inr (right_filled (left_filled (bottom_filled (top_filled (centred g b) b s) b s) b s) b s)"
proof -
  have q: "(let quot = int b div int s; rem = int b mod int s
            in if rem \<noteq> 0 then quot + 1 else quot) = int (tiles_needed b s)"
    using assms(2) by (rule quot_border)
  have top: "fill_top (centred g b) (int b) (int s) (int (tiles_needed b s)) =
      Inr (top_filled (centred g b) b s)"
    unfolding top_filled_def using assms by (intro fill_top_tiled) simp_all
  have bottom: "fill_bottom (top_filled (centred g b) b s) (int b) (int s) (int (tiles_needed b s)) =
      Inr (bottom_filled (top_filled (centred g b) b s) b s)"
    unfolding bottom_filled_def using assms by (intro fill_bottom_tiled) simp_all
  have left: "fill_left (bottom_filled (top_filled (centred g b) b s) b s)
        (int b) (int s) (int (tiles_needed b s)) =
      Inr (left_filled (bottom_filled (top_filled (centred g b) b s) b s) b s)"
    unfolding left_filled_def using assms by (intro fill_left_tiled) simp_all
  have right: "fill_right (left_filled (bottom_filled (top_filled (centred g b) b s) b s) b s)
        (int b) (int s) (int (tiles_needed b s)) =
      Inr (right_filled (left_filled (bottom_filled (top_filled (centred g b) b s) b s) b s) b s)"
    unfolding right_filled_def using assms by (intro fill_right_tiled) simp_all
  show ?thesis
    unfolding add_border_2d_def q using assms(2)
    by (simp add: Let_def zeros_border setitem_centre [OF assms(1)] top bottom left right)
qed

lemma cell_centred:
  "i < nrows g + 2 * b \<Longrightarrow> j < ncols g + 2 * b \<Longrightarrow>
   cell (centred g b) i j =
     (if b \<le> i \<and> i < b + nrows g \<and> b \<le> j \<and> j < b + ncols g
      then cell g (i - b) (j - b) else 0)"
  by (simp add: centred_def)

lemma cell_top_filled:
  "i < nrows a \<Longrightarrow> j < ncols a \<Longrightarrow>
   cell (top_filled a b s) i j =
     (if i < b then cell a (b + i mod min s (nrows a - b)) j else cell a i j)"
  by (simp add: top_filled_def)

lemma cell_bottom_filled:
  "i < nrows a \<Longrightarrow> j < ncols a \<Longrightarrow>
   cell (bottom_filled a b s) i j =
     (if nrows a - b \<le> i
      then cell a (nrows a - b - min s (nrows a - b)
                     + (i - (nrows a - b)) mod min s (nrows a - b)) j
      else cell a i j)"
  by (simp add: bottom_filled_def)

lemma cell_left_filled:
  "i < nrows a \<Longrightarrow> j < ncols a \<Longrightarrow>
   cell (left_filled a b s) i j =
     (if j < b then cell a i (b + j mod min s (ncols a - b)) else cell a i j)"
  by (simp add: left_filled_def)

lemma cell_right_filled:
  "i < nrows a \<Longrightarrow> j < ncols a \<Longrightarrow>
   cell (right_filled a b s) i j =
     (if ncols a - b \<le> j
      then cell a i (ncols a - b - min s (ncols a - b)
                       + (j - (ncols a - b)) mod min s (ncols a - b))
      else cell a i j)"
  by (simp add: right_filled_def)

text \<open>The four fills leave the centre alone.\<close>

lemma centre_after_fills:
  assumes "i < nrows g" and "j < ncols g"
  shows "cell (right_filled (left_filled (bottom_filled (top_filled (centred g b) b s) b s) b s) b s)
           (b + i) (b + j) = cell g i j"
  using assms
  by (simp add: cell_right_filled cell_left_filled cell_bottom_filled cell_top_filled cell_centred)

lemma add_border_2d_positive:
  assumes "0 < b"
  shows "\<exists>out. add_border_2d g (int b) stride = Inr out \<and> well_shaped out
           \<and> nrows out = nrows g + 2 * b \<and> ncols out = ncols g + 2 * b
           \<and> (\<forall>i j. i < nrows g \<longrightarrow> j < ncols g \<longrightarrow> cell out (b + i) (b + j) = cell g i j)"
proof (cases "stride \<le> 0")
  case True
  with assms show ?thesis
    by (simp add: add_border_2d_zero_fill cell_centred)
next
  case False
  then obtain s where s: "0 < s" "stride = int s"
    by (cases stride rule: int_sign_cases) auto
  with assms show ?thesis
    by (simp add: add_border_2d_tiled centre_after_fills)
qed

lemma tile_first_rows:
  assumes "0 < s" and "s \<le> nrows g"
  shows "tile (getitem g (None, Some (int s)) whole) (int q) 1 =
     Inr (mk_array (q * s) (ncols g) (\<lambda>i j. cell g (i mod s) j))"
  unfolding tile_rows using assms
  by (simp, intro mk_array_cong) (simp add: min_absorb1)

lemma tile_last_rows:
  assumes "0 < s" and "s \<le> nrows g"
  shows "tile (getitem g (Some (- int s), None) whole) (int q) 1 =
     Inr (mk_array (q * s) (ncols g) (\<lambda>i j. cell g (nrows g - s + i mod s) j))"
  unfolding tile_rows using assms
  by (simp, intro mk_array_cong) (simp add: min_absorb1)

lemma tile_first_cols:
  assumes "0 < s" and "s \<le> ncols g"
  shows "tile (getitem g whole (None, Some (int s))) 1 (int q) =
     Inr (mk_array (nrows g) (q * s) (\<lambda>i j. cell g i (j mod s)))"
  unfolding tile_cols using assms
  by (simp, intro mk_array_cong) (simp add: min_absorb1)

lemma tile_last_cols:
  assumes "0 < s" and "s \<le> ncols g"
  shows "tile (getitem g whole (Some (- int s), None)) 1 (int q) =
     Inr (mk_array (nrows g) (q * s) (\<lambda>i j. cell g i (ncols g - s + j mod s)))"
  unfolding tile_cols using assms
  by (simp, intro mk_array_cong) (simp add: min_absorb1)

lemma tiled_border_shape [simp]:
  "nrows (tiled_border g b s) = nrows g + 2 * b" "ncols (tiled_border g b s) = ncols g + 2 * b"
  "well_shaped (tiled_border g b s)"
  by (simp_all add: tiled_border_def)

lemma tiled_border_top:
  assumes "0 < s" and "s \<le> nrows g" and "i < b" and "j < ncols g"
  shows "cell (tiled_border g b s) i (b + j) = cell g (i mod s) j"
proof -
  have "i mod s < nrows g"
    using assms(1,2) mod_less_divisor [of s i] by linarith
  with assms show ?thesis
    by (simp add: tiled_border_def cell_right_filled cell_left_filled cell_bottom_filled
          cell_top_filled cell_centred min_absorb1)
qed

lemma tiled_border_bottom:
  assumes "0 < s" and "s \<le> nrows g" and "i < b" and "j < ncols g"
  shows "cell (tiled_border g b s) (nrows g + b + i) (b + j) = cell g (nrows g - s + i mod s) j"
proof -
  have "i mod s < s"
    using assms(1) by simp
  with assms show ?thesis
    by (simp add: tiled_border_def cell_right_filled cell_left_filled cell_bottom_filled
          cell_top_filled cell_centred min_absorb1)
qed

lemma tiled_border_left:
  assumes "0 < s" and "s \<le> ncols g" and "i < nrows g" and "j < b"
  shows "cell (tiled_border g b s) (b + i) j = cell g i (j mod s)"
proof -
  have "j mod s < ncols g"
    using assms(1,2) mod_less_divisor [of s j] by linarith
  with assms show ?thesis
    by (simp add: tiled_border_def cell_right_filled cell_left_filled cell_bottom_filled
          cell_top_filled cell_centred min_absorb1)
qed

lemma tiled_border_right:
  assumes "0 < s" and "s \<le> ncols g" and "i < nrows g" and "j < b"
  shows "cell (tiled_border g b s) (b + i) (ncols g + b + j) = cell g i (ncols g - s + j mod s)"
proof -
  have "j mod s < s"
    using assms(1) by simp
  with assms show ?thesis
    by (simp add: tiled_border_def cell_right_filled cell_left_filled cell_bottom_filled
          cell_top_filled cell_centred min_absorb1)
qed

lemma leading_rows_of_tiles:
  assumes "0 < s"
  shows "getitem (mk_array (tiles_needed b s * s) c f) (None, Some (int b)) whole = mk_array b c f"
  unfolding getitem_def using tiles_cover [OF assms, of b]
  by (intro mk_array_eqI) simp_all

lemma leading_cols_of_tiles:
  assumes "0 < s"
  shows "getitem (mk_array r (tiles_needed b s * s) f) whole (None, Some (int b)) = mk_array r b f"
  unfolding getitem_def using tiles_cover [OF assms, of b]
  by (intro mk_array_eqI) simp_all

lemma top_border_leading:
  assumes "0 < b" and "0 < s" and "s \<le> nrows g"
  shows "getitem (tiled_border g b s) (None, Some (int b)) (Some (int b), Some (- int b)) =
         mk_array b (ncols g) (\<lambda>i j. cell g (i mod s) j)"
  using assms by (intro array_eqI) (simp_all add: tiled_border_top)

lemma bottom_border_leading:
  assumes "0 < b" and "0 < s" and "s \<le> nrows g"
  shows "getitem (tiled_border g b s) (Some (- int b), None) (Some (int b), Some (- int b)) =
         mk_array b (ncols g) (\<lambda>i j. cell g (nrows g - s + i mod s) j)"
proof (rule array_eqI)
  fix i j
  assume "i < nrows (getitem (tiled_border g b s) (Some (- int b), None) (Some (int b), Some (- int b)))"
    and "j < ncols (getitem (tiled_border g b s) (Some (- int b), None) (Some (int b), Some (- int b)))"
  then have i: "i < b" and j: "j < ncols g"
    using assms(1) by simp_all
  have "cell (getitem (tiled_border g b s) (Some (- int b), None) (Some (int b), Some (- int b))) i j
      = cell (tiled_border g b s) (nrows g + b + i) (b + j)"
    using i j assms(1) by (simp add: ac_simps)
  also have "\<dots> = cell g (nrows g - s + i mod s) j"
    using assms(2,3) i j by (rule tiled_border_bottom)
  also have "\<dots> = cell (mk_array b (ncols g) (\<lambda>i j. cell g (nrows g - s + i mod s) j)) i j"
    using i j by simp
  finally show "cell (getitem (tiled_border g b s) (Some (- int b), None) (Some (int b), Some (- int b))) i j
      = cell (mk_array b (ncols g) (\<lambda>i j. cell g (nrows g - s + i mod s) j)) i j" .
qed (use assms(1) in simp_all)

lemma left_border_leading:
  assumes "0 < b" and "0 < s" and "s \<le> ncols g"
  shows "getitem (tiled_border g b s) (Some (int b), Some (- int b)) (None, Some (int b)) =
         mk_array (nrows g) b (\<lambda>i j. cell g i (j mod s))"
  using assms by (intro array_eqI) (simp_all add: tiled_border_left)

lemma right_border_leading:
  assumes "0 < b" and "0 < s" and "s \<le> ncols g"
  shows "getitem (tiled_border g b s) (Some (int b), Some (- int b)) (Some (- int b), None) =
         mk_array (nrows g) b (\<lambda>i j. cell g i (ncols g - s + j mod s))"
proof (rule array_eqI)
  fix i j
  assume "i < nrows (getitem (tiled_border g b s) (Some (int b), Some (- int b)) (Some (- int b), None))"
    and "j < ncols (getitem (tiled_border g b s) (Some (int b), Some (- int b)) (Some (- int b), None))"
  then have i: "i < nrows g" and j: "j < b"
    using assms(1) by simp_all
  have "cell (getitem (tiled_border g b s) (Some (int b), Some (- int b)) (Some (- int b), None)) i j
      = cell (tiled_border g b s) (b + i) (ncols g + b + j)"
    using i j assms(1) by (simp add: ac_simps)
  also have "\<dots> = cell g i (ncols g - s + j mod s)"
    using assms(2,3) i j by (rule tiled_border_right)
  also have "\<dots> = cell (mk_array (nrows g) b (\<lambda>i j. cell g i (ncols g - s + j mod s))) i j"
    using i j by simp
  finally show "cell (getitem (tiled_border g b s) (Some (int b), Some (- int b)) (Some (- int b), None)) i j
      = cell (mk_array (nrows g) b (\<lambda>i j. cell g i (ncols g - s + j mod s))) i j" .
qed (use assms(1) in simp_all)

lemma add_border_2d_zero_width_shape:
  assumes "add_border_2d g 0 0 = Inr out"
  shows "nrows out = nrows g" and "ncols out = ncols g"
proof -
  have z: "zeros (int (nrows g)) (int (ncols g)) =
      (Inr (mk_array (nrows g) (ncols g) (\<lambda>i j. 0)) :: error + 'a ndarray)"
    by (simp add: zeros_def)
  from assms have "setitem (mk_array (nrows g) (ncols g) (\<lambda>i j. 0)) (Some 0, Some 0) (Some 0, Some 0) g
      = Inr out"
    by (simp add: add_border_2d_def z)
  from setitem_shape(1,2) [OF this] show "nrows out = nrows g" and "ncols out = ncols g"
    by simp_all
qed

lemma add_border_2d_negative_stride:
  assumes "stride < 0"
  shows "add_border_2d g b stride = add_border_2d g b 0"
proof -
  have "(0 < stride) = False" using assms by simp
  then show ?thesis
    by (simp add: add_border_2d_def Let_def)
qed

section \<open>Both operations only move values\<close>

lemma values_of_mk_array: "values_of (mk_array r c f) = {f i j | i j. i < r \<and> j < c}"
  by (fastforce simp: values_of_def mk_array_def)

lemma cell_in_values:
  assumes "well_shaped a" and "i < nrows a" and "j < ncols a"
  shows "cell a i j \<in> values_of a"
proof -
  have len: "length (elems a) = nrows a" and row: "length (elems a ! i) = ncols a"
    using assms(1,2) by (auto simp: well_shaped_def list_all_length)
  have "elems a ! i \<in> set (elems a)"
    using assms(2) len by simp
  moreover have "elems a ! i ! j \<in> set (elems a ! i)"
    using assms(3) row by simp
  ultimately show ?thesis
    unfolding values_of_def cell_def by auto
qed

lemma moved_from_mk_array:
  assumes "\<And>i j. i < r \<Longrightarrow> j < c \<Longrightarrow> f i j \<in> insert 0 S"
  shows "moved_from S (mk_array r c f)"
  using assms by (auto simp: moved_from_def values_of_mk_array)

lemma moved_from_cell:
  assumes "moved_from S a" and "i < nrows a" and "j < ncols a"
  shows "cell a i j \<in> insert 0 S"
  using assms cell_in_values [of a i j] by (auto simp: moved_from_def)

lemma moved_from_well_shaped: "moved_from S a \<Longrightarrow> well_shaped a"
  by (simp add: moved_from_def)

lemma moved_zeros_like: "moved_from S (zeros_like a)"
  unfolding zeros_like_def by (rule moved_from_mk_array) simp

lemma moved_zeros: "zeros x y = Inr z \<Longrightarrow> moved_from S z"
  unfolding zeros_def by (auto split: if_splits intro: moved_from_mk_array)

lemma moved_getitem:
  assumes "moved_from S a"
  shows "moved_from S (getitem a rs cs)"
  unfolding getitem_def
  by (rule moved_from_mk_array) (rule moved_from_cell [OF assms], (rule slice_in_range, assumption)+)

lemma mod_in_tiled:
  assumes "i < q * n"
  shows "i mod n < (n::nat)"
proof -
  from assms have "0 < n" by (cases n) simp_all
  then show ?thesis by simp
qed

lemma moved_tile:
  assumes "moved_from S a" and "tile a qr qc = Inr t"
  shows "moved_from S t"
proof -
  from assms(2) have t: "t = mk_array (nat qr * nrows a) (nat qc * ncols a)
             (\<lambda>i j. cell a (i mod nrows a) (j mod ncols a))"
    unfolding tile_def by (simp split: if_splits)
  show ?thesis
    unfolding t
    by (rule moved_from_mk_array) (rule moved_from_cell [OF assms(1)], (erule mod_in_tiled)+)
qed

lemma moved_vstack:
  assumes "moved_from S a" and "moved_from S b" and "vstack a b = Inr c"
  shows "moved_from S c"
proof -
  from assms(3) have eq: "ncols a = ncols b"
    and c: "c = mk_array (nrows a + nrows b) (ncols a)
             (\<lambda>i j. if i < nrows a then cell a i j else cell b (i - nrows a) j)"
    unfolding vstack_def by (simp_all split: if_splits)
  show ?thesis
    unfolding c
  proof (rule moved_from_mk_array)
    fix i j
    assume "i < nrows a + nrows b" and "j < ncols a"
    then show "(if i < nrows a then cell a i j else cell b (i - nrows a) j) \<in> insert 0 S"
      using moved_from_cell [OF assms(1), of i j] moved_from_cell [OF assms(2), of "i - nrows a" j] eq
      by (cases "i < nrows a") simp_all
  qed
qed

lemma moved_hstack:
  assumes "moved_from S a" and "moved_from S b" and "hstack a b = Inr c"
  shows "moved_from S c"
proof -
  from assms(3) have eq: "nrows a = nrows b"
    and c: "c = mk_array (nrows a) (ncols a + ncols b)
             (\<lambda>i j. if j < ncols a then cell a i j else cell b i (j - ncols a))"
    unfolding hstack_def by (simp_all split: if_splits)
  show ?thesis
    unfolding c
  proof (rule moved_from_mk_array)
    fix i j
    assume "i < nrows a" and "j < ncols a + ncols b"
    then show "(if j < ncols a then cell a i j else cell b i (j - ncols a)) \<in> insert 0 S"
      using moved_from_cell [OF assms(1), of i j] moved_from_cell [OF assms(2), of i "j - ncols a"] eq
      by (cases "j < ncols a") simp_all
  qed
qed

lemma moved_broadcast_to:
  assumes "moved_from S src" and "broadcast_to src r c = Inr v"
  shows "moved_from S v"
proof -
  from assms(2) have shape: "nrows src = r \<or> nrows src = 1" "ncols src = c \<or> ncols src = 1"
    and v: "v = mk_array r c
             (\<lambda>i j. cell src (if nrows src = 1 then 0 else i) (if ncols src = 1 then 0 else j))"
    unfolding broadcast_to_def by (simp_all split: if_splits)
  show ?thesis
    unfolding v
  proof (rule moved_from_mk_array)
    fix i j
    assume "i < r" and "j < c"
    with shape have "(if nrows src = 1 then 0 else i) < nrows src"
      and "(if ncols src = 1 then 0 else j) < ncols src"
      by auto
    then show "cell src (if nrows src = 1 then 0 else i) (if ncols src = 1 then 0 else j)
        \<in> insert 0 S"
      by (rule moved_from_cell [OF assms(1)])
  qed
qed

lemma moved_setitem:
  assumes "moved_from S a" and "moved_from S src" and "setitem a rs cs src = Inr out"
  shows "moved_from S out"
proof -
  from assms(3) obtain v
    where bc: "broadcast_to src (slice_len rs (nrows a)) (slice_len cs (ncols a)) = Inr v"
      and out: "out = mk_array (nrows a) (ncols a)
          (\<lambda>i j. if slice_start rs (nrows a) \<le> i
                     \<and> i < slice_start rs (nrows a) + slice_len rs (nrows a)
                     \<and> slice_start cs (ncols a) \<le> j
                     \<and> j < slice_start cs (ncols a) + slice_len cs (ncols a)
                  then cell v (i - slice_start rs (nrows a)) (j - slice_start cs (ncols a))
                  else cell a i j)"
    unfolding setitem_def by (auto elim!: and_then_InrE)
  have v: "moved_from S v"
    using assms(2) bc by (rule moved_broadcast_to)
  have shape: "nrows v = slice_len rs (nrows a)" "ncols v = slice_len cs (ncols a)"
    using bc unfolding broadcast_to_def by (auto split: if_splits)
  show ?thesis
    unfolding out
  proof (rule moved_from_mk_array)
    fix i j
    assume i: "i < nrows a" and j: "j < ncols a"
    show "(if slice_start rs (nrows a) \<le> i
                     \<and> i < slice_start rs (nrows a) + slice_len rs (nrows a)
                     \<and> slice_start cs (ncols a) \<le> j
                     \<and> j < slice_start cs (ncols a) + slice_len cs (ncols a)
                  then cell v (i - slice_start rs (nrows a)) (j - slice_start cs (ncols a))
                  else cell a i j) \<in> insert 0 S"
    proof (cases "slice_start rs (nrows a) \<le> i
                     \<and> i < slice_start rs (nrows a) + slice_len rs (nrows a)
                     \<and> slice_start cs (ncols a) \<le> j
                     \<and> j < slice_start cs (ncols a) + slice_len cs (ncols a)")
      case True
      then have "i - slice_start rs (nrows a) < nrows v" "j - slice_start cs (ncols a) < ncols v"
        using shape by linarith+
      then have "cell v (i - slice_start rs (nrows a)) (j - slice_start cs (ncols a)) \<in> insert 0 S"
        by (rule moved_from_cell [OF v])
      then show ?thesis unfolding if_P [OF True] .
    next
      case False
      have "cell a i j \<in> insert 0 S"
        using assms(1) i j by (rule moved_from_cell)
      then show ?thesis unfolding if_not_P [OF False] .
    qed
  qed
qed

lemma moved_shift_rows:
  assumes "moved_from S arr" and "shift_rows arr shift_row stride = Inr out"
  shows "moved_from S out"
proof -
  note parts = moved_getitem [OF assms(1)] moved_zeros_like [of S arr]
  consider (down_tiled) "0 < shift_row" "0 < stride"
    | (down_zero) "0 < shift_row" "\<not> 0 < stride"
    | (up_tiled) "\<not> 0 < shift_row" "shift_row < 0" "0 < stride"
    | (up_zero) "\<not> 0 < shift_row" "shift_row < 0" "\<not> 0 < stride"
    | (unshifted) "\<not> 0 < shift_row" "\<not> shift_row < 0"
    by blast
  then show ?thesis
  proof cases
    case down_tiled
    with assms(2) obtain t q where t: "tile (getitem arr (None, Some stride) whole) q 1 = Inr t"
      and v: "vstack (getitem t (Some (- shift_row), None) whole)
                (getitem arr (None, Some (- shift_row)) whole) = Inr out"
      by (auto simp: shift_rows_def Let_def elim!: and_then_InrE)
    from parts(1) t have "moved_from S t" by (rule moved_tile)
    then have "moved_from S (getitem t (Some (- shift_row), None) whole)"
      by (rule moved_getitem)
    from this parts(1) v show ?thesis by (rule moved_vstack)
  next
    case down_zero
    with assms(2) have "setitem (zeros_like arr) (Some shift_row, None) whole
                   (getitem arr (None, Some (- shift_row)) whole) = Inr out"
      by (simp add: shift_rows_def Let_def)
    with parts(2,1) show ?thesis by (rule moved_setitem)
  next
    case up_tiled
    with assms(2) obtain t q where t: "tile (getitem arr (Some (- stride), None) whole) q 1 = Inr t"
      and v: "vstack (getitem arr (Some (- shift_row), None) whole)
                (getitem t (None, Some (- shift_row)) whole) = Inr out"
      by (auto simp: shift_rows_def Let_def elim!: and_then_InrE)
    from parts(1) t have "moved_from S t" by (rule moved_tile)
    then have "moved_from S (getitem t (None, Some (- shift_row)) whole)"
      by (rule moved_getitem)
    from parts(1) this v show ?thesis by (rule moved_vstack)
  next
    case up_zero
    with assms(2) have "setitem (zeros_like arr) (None, Some shift_row) whole
                   (getitem arr (Some (- shift_row), None) whole) = Inr out"
      by (simp add: shift_rows_def Let_def)
    with parts(2,1) show ?thesis by (rule moved_setitem)
  next
    case unshifted
    with assms(2) have "setitem (zeros_like arr) whole whole (getitem arr whole whole) = Inr out"
      by (simp add: shift_rows_def Let_def)
    with parts(2,1) show ?thesis by (rule moved_setitem)
  qed
qed

lemma moved_shift_cols:
  assumes "moved_from S row_arr" and "shift_cols arr row_arr shift_col stride = Inr out"
  shows "moved_from S out"
proof -
  note parts = moved_getitem [OF assms(1)] moved_zeros_like [of S arr]
  consider (right_tiled) "0 < shift_col" "0 < stride"
    | (right_zero) "0 < shift_col" "\<not> 0 < stride"
    | (left_tiled) "\<not> 0 < shift_col" "shift_col < 0" "0 < stride"
    | (left_zero) "\<not> 0 < shift_col" "shift_col < 0" "\<not> 0 < stride"
    | (unshifted) "\<not> 0 < shift_col" "\<not> shift_col < 0"
    by blast
  then show ?thesis
  proof cases
    case right_tiled
    with assms(2) obtain t q where t: "tile (getitem row_arr whole (None, Some stride)) 1 q = Inr t"
      and v: "hstack (getitem t whole (Some (- shift_col), None))
                (getitem row_arr whole (None, Some (- shift_col))) = Inr out"
      by (auto simp: shift_cols_def Let_def elim!: and_then_InrE)
    from parts(1) t have "moved_from S t" by (rule moved_tile)
    then have "moved_from S (getitem t whole (Some (- shift_col), None))"
      by (rule moved_getitem)
    from this parts(1) v show ?thesis by (rule moved_hstack)
  next
    case right_zero
    with assms(2) have "setitem (zeros_like arr) whole (Some shift_col, None)
                   (getitem row_arr whole (None, Some (- shift_col))) = Inr out"
      by (simp add: shift_cols_def Let_def)
    with parts(2,1) show ?thesis by (rule moved_setitem)
  next
    case left_tiled
    with assms(2) obtain t q where t: "tile (getitem row_arr whole (Some (- stride), None)) 1 q = Inr t"
      and v: "hstack (getitem row_arr whole (Some (- shift_col), None))
                (getitem t whole (None, Some (- shift_col))) = Inr out"
      by (auto simp: shift_cols_def Let_def elim!: and_then_InrE)
    from parts(1) t have "moved_from S t" by (rule moved_tile)
    then have "moved_from S (getitem t whole (None, Some (- shift_col)))"
      by (rule moved_getitem)
    from parts(1) this v show ?thesis by (rule moved_hstack)
  next
    case left_zero
    with assms(2) have "setitem (zeros_like arr) whole (None, Some shift_col)
                   (getitem row_arr whole (Some (- shift_col), None)) = Inr out"
      by (simp add: shift_cols_def Let_def)
    with parts(2,1) show ?thesis by (rule moved_setitem)
  next
    case unshifted
    with assms(2) have "setitem (zeros_like arr) whole whole (getitem row_arr whole whole) = Inr out"
      by (simp add: shift_cols_def Let_def)
    with parts(2,1) show ?thesis by (rule moved_setitem)
  qed
qed

lemma moved_shift_2d:
  assumes "moved_from S arr" and "shift_2d arr shifts stride = Inr out"
  shows "moved_from S out"
proof -
  obtain shift_row shift_col where sh: "shifts = (shift_row, shift_col)"
    by (cases shifts)
  with assms(2) obtain row_arr where r: "shift_rows arr shift_row stride = Inr row_arr"
    and c: "shift_cols arr row_arr shift_col stride = Inr out"
    by (auto simp: shift_2d_def elim!: and_then_InrE)
  from assms(1) r have "moved_from S row_arr" by (rule moved_shift_rows)
  from this c show ?thesis by (rule moved_shift_cols)
qed

lemma moved_fill_top:
  assumes "moved_from S a" and "fill_top a b s q = Inr out"
  shows "moved_from S out"
proof -
  from assms(2) obtain t where t: "tile (getitem a (Some b, Some (b + s)) whole) q 1 = Inr t"
    and w: "setitem a (None, Some b) whole (getitem t (None, Some b) whole) = Inr out"
    by (auto simp: fill_top_def Let_def elim!: and_then_InrE)
  from moved_getitem [OF assms(1)] t have "moved_from S t" by (rule moved_tile)
  then have "moved_from S (getitem t (None, Some b) whole)" by (rule moved_getitem)
  with assms(1) show ?thesis using w by (rule moved_setitem)
qed

lemma moved_fill_bottom:
  assumes "moved_from S a" and "fill_bottom a b s q = Inr out"
  shows "moved_from S out"
proof -
  from assms(2) obtain t where t: "tile (getitem a (Some (- (b + s)), Some (- b)) whole) q 1 = Inr t"
    and w: "setitem a (Some (- b), None) whole (getitem t (None, Some b) whole) = Inr out"
    by (auto simp: fill_bottom_def Let_def elim!: and_then_InrE)
  from moved_getitem [OF assms(1)] t have "moved_from S t" by (rule moved_tile)
  then have "moved_from S (getitem t (None, Some b) whole)" by (rule moved_getitem)
  with assms(1) show ?thesis using w by (rule moved_setitem)
qed

lemma moved_fill_left:
  assumes "moved_from S a" and "fill_left a b s q = Inr out"
  shows "moved_from S out"
proof -
  from assms(2) obtain t where t: "tile (getitem a whole (Some b, Some (b + s))) 1 q = Inr t"
    and w: "setitem a whole (None, Some b) (getitem t whole (None, Some b)) = Inr out"
    by (auto simp: fill_left_def Let_def elim!: and_then_InrE)
  from moved_getitem [OF assms(1)] t have "moved_from S t" by (rule moved_tile)
  then have "moved_from S (getitem t whole (None, Some b))" by (rule moved_getitem)
  with assms(1) show ?thesis using w by (rule moved_setitem)
qed

lemma moved_fill_right:
  assumes "moved_from S a" and "fill_right a b s q = Inr out"
  shows "moved_from S out"
proof -
  from assms(2) obtain t where t: "tile (getitem a whole (Some (- (b + s)), Some (- b))) 1 q = Inr t"
    and w: "setitem a whole (Some (- b), None) (getitem t whole (None, Some b)) = Inr out"
    by (auto simp: fill_right_def Let_def elim!: and_then_InrE)
  from moved_getitem [OF assms(1)] t have "moved_from S t" by (rule moved_tile)
  then have "moved_from S (getitem t whole (None, Some b))" by (rule moved_getitem)
  with assms(1) show ?thesis using w by (rule moved_setitem)
qed

lemma moved_add_border_2d:
  assumes "moved_from S arr" and "add_border_2d arr b stride = Inr out"
  shows "moved_from S out"
proof -
  define q where "q = (let quot = b div stride; rem = b mod stride
                       in if rem \<noteq> 0 then quot + 1 else quot)"
  have unfolded: "add_border_2d arr b stride =
      and_then (zeros (int (nrows arr) + b * 2) (int (ncols arr) + b * 2))
        (\<lambda>z. and_then (setitem z (Some b, Some (- b)) (Some b, Some (- b)) arr)
           (\<lambda>c. if stride > 0 then
                  and_then (fill_top c b stride q)
                    (\<lambda>a1. and_then (fill_bottom a1 b stride q)
                       (\<lambda>a2. and_then (fill_left a2 b stride q)
                          (\<lambda>a3. fill_right a3 b stride q)))
                else Inr c))"
    unfolding add_border_2d_def q_def Let_def ..
  from assms(2) obtain z where z: "zeros (int (nrows arr) + b * 2) (int (ncols arr) + b * 2) = Inr z"
    and r1: "and_then (setitem z (Some b, Some (- b)) (Some b, Some (- b)) arr)
           (\<lambda>c. if stride > 0 then
                  and_then (fill_top c b stride q)
                    (\<lambda>a1. and_then (fill_bottom a1 b stride q)
                       (\<lambda>a2. and_then (fill_left a2 b stride q)
                          (\<lambda>a3. fill_right a3 b stride q)))
                else Inr c) = Inr out"
    unfolding unfolded by (rule and_then_InrE)
  from r1 obtain c where c: "setitem z (Some b, Some (- b)) (Some b, Some (- b)) arr = Inr c"
    and r2: "(if stride > 0 then
                  and_then (fill_top c b stride q)
                    (\<lambda>a1. and_then (fill_bottom a1 b stride q)
                       (\<lambda>a2. and_then (fill_left a2 b stride q)
                          (\<lambda>a3. fill_right a3 b stride q)))
                else Inr c) = Inr out"
    by (rule and_then_InrE)
  from z have "moved_from S z" by (rule moved_zeros)
  from this assms(1) c have mc: "moved_from S c" by (rule moved_setitem)
  show ?thesis
  proof (cases "0 < stride")
    case False
    with r2 mc show ?thesis by simp
  next
    case True
    with r2 have r3: "and_then (fill_top c b stride q)
                    (\<lambda>a1. and_then (fill_bottom a1 b stride q)
                       (\<lambda>a2. and_then (fill_left a2 b stride q)
                          (\<lambda>a3. fill_right a3 b stride q))) = Inr out"
      by simp
    then obtain a1 where a1: "fill_top c b stride q = Inr a1"
      and r4: "and_then (fill_bottom a1 b stride q)
                       (\<lambda>a2. and_then (fill_left a2 b stride q)
                          (\<lambda>a3. fill_right a3 b stride q)) = Inr out"
      by (rule and_then_InrE)
    from r4 obtain a2 where a2: "fill_bottom a1 b stride q = Inr a2"
      and r5: "and_then (fill_left a2 b stride q) (\<lambda>a3. fill_right a3 b stride q) = Inr out"
      by (rule and_then_InrE)
    from r5 obtain a3 where a3: "fill_left a2 b stride q = Inr a3"
      and a4: "fill_right a3 b stride q = Inr out"
      by (rule and_then_InrE)
    from mc a1 have "moved_from S a1" by (rule moved_fill_top)
    from this a2 have "moved_from S a2" by (rule moved_fill_bottom)
    from this a3 have "moved_from S a3" by (rule moved_fill_left)
    from this a4 show ?thesis by (rule moved_fill_right)
  qed
qed

lemma moved_from_self: "well_shaped g \<Longrightarrow> moved_from (values_of g) g"
  by (auto simp: moved_from_def)

section \<open>\<open>shift_2d\<close> continues a periodic pattern\<close>

lemma row_periodic_step:
  assumes "row_periodic p a" and "i + p < nrows a" and "j < ncols a"
  shows "cell a (i + p) j = cell a i j"
  using assms by (simp add: row_periodic_def list_all_iff)

lemma col_periodic_step:
  assumes "col_periodic p a" and "i < nrows a" and "j + p < ncols a"
  shows "cell a i (j + p) = cell a i j"
  using assms by (simp add: col_periodic_def list_all_iff)

lemma row_periodic_reduce:
  assumes "row_periodic p a" and "0 < p" and "i < nrows a" and "j < ncols a"
  shows "cell a i j = cell a (i mod p) j"
  using assms(3)
proof (induction i rule: less_induct)
  case (less i)
  show ?case
  proof (cases "i < p")
    case True
    then show ?thesis by simp
  next
    case False
    then have i: "i = (i - p) + p" by simp
    have "cell a i j = cell a ((i - p) + p) j"
      using i by simp
    also have "\<dots> = cell a (i - p) j"
      using assms(1) i less.prems assms(4) by (intro row_periodic_step) simp_all
    also have "\<dots> = cell a ((i - p) mod p) j"
      using assms(2) less.prems False by (intro less.IH) simp_all
    also have "(i - p) mod p = i mod p"
      using False by (simp add: le_mod_geq)
    finally show ?thesis .
  qed
qed

lemma col_periodic_reduce:
  assumes "col_periodic p a" and "0 < p" and "i < nrows a" and "j < ncols a"
  shows "cell a i j = cell a i (j mod p)"
  using assms(4)
proof (induction j rule: less_induct)
  case (less j)
  show ?case
  proof (cases "j < p")
    case True
    then show ?thesis by simp
  next
    case False
    then have j: "j = (j - p) + p" by simp
    have "cell a i j = cell a i ((j - p) + p)"
      using j by simp
    also have "\<dots> = cell a i (j - p)"
      using assms(1,3) j less.prems by (intro col_periodic_step) simp_all
    also have "\<dots> = cell a i ((j - p) mod p)"
      using assms(2) less.prems False by (intro less.IH) simp_all
    also have "(j - p) mod p = j mod p"
      using False by (simp add: le_mod_geq)
    finally show ?thesis .
  qed
qed

text \<open>Index arithmetic: where a padded row comes from, modulo the period.\<close>

lemma pad_before_index:
  assumes "0 < p" and "p dvd s" and "k \<le> q * s" and "i < k"
  shows "((q * s - k + i) mod s) mod p = nat ((int i - int k) mod int p)"
proof -
  have "((q * s - k + i) mod s) mod p = (q * s - k + i) mod p"
    using assms(2) by (rule mod_mod_cancel)
  also have "int \<dots> = (int (q * s) - int k + int i) mod int p"
  proof -
    have "int (q * s - k + i) = int (q * s) - int k + int i"
      using assms(3) by (simp add: of_nat_diff)
    then show ?thesis by (simp only: zmod_int)
  qed
  also have "\<dots> = (int i - int k) mod int p"
  proof -
    have "int p dvd int (q * s)"
      using assms(2) by simp
    then obtain c where c: "int (q * s) = int p * c" ..
    have "(int (q * s) - int k + int i) = (int i - int k) + c * int p"
      using c by (simp add: algebra_simps)
    then show ?thesis by (simp only: mod_mult_self1)
  qed
  finally have "int (((q * s - k + i) mod s) mod p) = (int i - int k) mod int p" .
  then show ?thesis by simp
qed

lemma kept_after_index:
  assumes "0 < p" and "k \<le> i"
  shows "(i - k) mod p = nat ((int i - int k) mod int p)"
proof -
  have "int ((i - k) mod p) = (int i - int k) mod int p"
    using assms(2) by (simp add: zmod_int of_nat_diff)
  then show ?thesis by simp
qed

lemma kept_before_index:
  assumes "0 < p"
  shows "(k + i) mod p = nat ((int i - (- int k)) mod int p)"
proof -
  have "int ((k + i) mod p) = (int i - (- int k)) mod int p"
    by (simp add: zmod_int add.commute)
  then show ?thesis by simp
qed

lemma pad_after_index:
  assumes "0 < p" and "p dvd s" and "0 < s" and "s \<le> n" and "n - k \<le> i" and "k \<le> n"
  shows "(n - s + (i - (n - k)) mod s) mod p = nat ((int i - (- int k)) mod int p)"
proof -
  have "(n - s + (i - (n - k)) mod s) mod p = (n - s + ((i - (n - k)) mod s) mod p) mod p"
    by (simp only: mod_add_right_eq)
  also have "((i - (n - k)) mod s) mod p = (i - (n - k)) mod p"
    using assms(2) by (rule mod_mod_cancel)
  also have "(n - s + (i - (n - k)) mod p) mod p = (n - s + (i - (n - k))) mod p"
    by (simp only: mod_add_right_eq)
  also have "n - s + (i - (n - k)) = i + k - s"
    using assms(4-6) by simp
  also have "int ((i + k - s) mod p) = (int i + int k - int s) mod int p"
  proof -
    have "int (i + k - s) = int i + int k - int s"
      using assms(4-6) by (simp add: of_nat_diff)
    then show ?thesis by (simp only: zmod_int)
  qed
  also have "\<dots> = (int i - (- int k)) mod int p"
  proof -
    have "int p dvd int s" using assms(2) by simp
    then obtain c where c: "int s = int p * c" ..
    have "int i + int k - int s = (int i - (- int k)) + (- c) * int p"
      using c by (simp add: algebra_simps)
    then show ?thesis by (simp only: mod_mult_self1)
  qed
  finally have "int ((n - s + (i - (n - k)) mod s) mod p) = (int i - (- int k)) mod int p" .
  then show ?thesis by simp
qed

lemma shift_rows_continues_period:
  assumes "well_shaped g" and "row_periodic p g" and "0 < p" and "p dvd s" and "0 < s"
    and "s \<le> nrows g" and "\<bar>shift_row\<bar> \<le> int (nrows g)"
  shows "\<exists>out. shift_rows g shift_row (int s) = Inr out \<and> well_shaped out
           \<and> nrows out = nrows g \<and> ncols out = ncols g
           \<and> (\<forall>i j. i < nrows g \<longrightarrow> j < ncols g \<longrightarrow>
                 cell out i j = cell g (nat ((int i - shift_row) mod int p)) j)"
proof (cases shift_row rule: int_sign_cases)
  case (pos k)
  with assms(7) have k: "k \<le> nrows g" by simp
  have m: "min s (nrows g) = s" using assms(6) by simp
  have T: "k \<le> tiles_needed k s * s" using assms(5) by (rule tiles_cover)
  have "cell g ((tiles_needed k s * s - k + i) mod s) j = cell g (nat ((int i - int k) mod int p)) j"
    if "i < k" "j < ncols g" for i j
  proof -
    have "(tiles_needed k s * s - k + i) mod s < nrows g"
      using assms(5,6) mod_less_divisor [of s "tiles_needed k s * s - k + i"] by linarith
    then have "cell g ((tiles_needed k s * s - k + i) mod s) j
        = cell g (((tiles_needed k s * s - k + i) mod s) mod p) j"
      using assms(2,3) that(2) by (intro row_periodic_reduce)
    then show ?thesis
      using pad_before_index [OF assms(3,4) T that(1)] by simp
  qed
  moreover have "cell g (i - k) j = cell g (nat ((int i - int k) mod int p)) j"
    if "\<not> i < k" "i < nrows g" "j < ncols g" for i j
  proof -
    have "cell g (i - k) j = cell g ((i - k) mod p) j"
      using assms(2,3) that by (intro row_periodic_reduce) simp_all
    then show ?thesis
      using kept_after_index [OF assms(3), of k i] that(1) by simp
  qed
  ultimately show ?thesis
    using pos k assms(1,5) by (simp add: shift_rows_down_tiled m)
next
  case (neg k)
  with assms(7) have k: "k \<le> nrows g" by simp
  have m: "min s (nrows g) = s" using assms(6) by simp
  have "cell g (k + i) j = cell g (nat ((int i - (- int k)) mod int p)) j"
    if "i < nrows g - k" "j < ncols g" for i j
  proof -
    have "cell g (k + i) j = cell g ((k + i) mod p) j"
      using assms(2,3) that by (intro row_periodic_reduce) simp_all
    then show ?thesis
      using kept_before_index [OF assms(3), of k i] by simp
  qed
  moreover have "cell g (nrows g - s + (i - (nrows g - k)) mod s) j
      = cell g (nat ((int i - (- int k)) mod int p)) j"
    if "\<not> i < nrows g - k" "i < nrows g" "j < ncols g" for i j
  proof -
    have "(i - (nrows g - k)) mod s < s"
      using assms(5) by simp
    then have "nrows g - s + (i - (nrows g - k)) mod s < nrows g"
      using assms(5,6) by linarith
    then have "cell g (nrows g - s + (i - (nrows g - k)) mod s) j
        = cell g ((nrows g - s + (i - (nrows g - k)) mod s) mod p) j"
      using assms(2,3) that(3) by (intro row_periodic_reduce)
    moreover have "nrows g - k \<le> i" using that(1) by simp
    ultimately show ?thesis
      using pad_after_index [OF assms(3,4,5,6) _ k, of i] by simp
  qed
  ultimately show ?thesis
    using neg k assms(1,5) by (simp add: shift_rows_up_tiled m)
next
  case zero
  have "cell g i j = cell g (nat (int i mod int p)) j" if "i < nrows g" "j < ncols g" for i j
  proof -
    have "cell g i j = cell g (i mod p) j"
      using assms(2,3) that by (rule row_periodic_reduce)
    moreover have "nat (int i mod int p) = i mod p"
      by (simp add: zmod_int [symmetric] del: of_nat_mod)
    ultimately show ?thesis by simp
  qed
  with zero assms(1) show ?thesis
    by (simp add: shift_rows_unshifted)
qed

lemma col_periodicI:
  assumes "\<And>i j. i < nrows a \<Longrightarrow> j + p < ncols a \<Longrightarrow> cell a i (j + p) = cell a i j"
  shows "col_periodic p a"
  using assms by (simp add: col_periodic_def list_all_iff less_diff_conv)

lemma shift_cols_continues_period:
  assumes "well_shaped row_arr" and "nrows row_arr = nrows arr" and "ncols row_arr = ncols arr"
    and "col_periodic p row_arr" and "0 < p" and "p dvd s" and "0 < s"
    and "s \<le> ncols row_arr" and "\<bar>shift_col\<bar> \<le> int (ncols row_arr)"
  shows "\<exists>out. shift_cols arr row_arr shift_col (int s) = Inr out \<and> well_shaped out
           \<and> nrows out = nrows row_arr \<and> ncols out = ncols row_arr
           \<and> (\<forall>i j. i < nrows row_arr \<longrightarrow> j < ncols row_arr \<longrightarrow>
                 cell out i j = cell row_arr i (nat ((int j - shift_col) mod int p)))"
proof (cases shift_col rule: int_sign_cases)
  case (pos k)
  with assms(9) have k: "k \<le> ncols row_arr" by simp
  have m: "min s (ncols row_arr) = s" using assms(8) by simp
  have T: "k \<le> tiles_needed k s * s" using assms(7) by (rule tiles_cover)
  have "cell row_arr i ((tiles_needed k s * s - k + j) mod s)
      = cell row_arr i (nat ((int j - int k) mod int p))"
    if "i < nrows row_arr" "j < k" for i j
  proof -
    have "(tiles_needed k s * s - k + j) mod s < ncols row_arr"
      using assms(7,8) mod_less_divisor [of s "tiles_needed k s * s - k + j"] by linarith
    then have "cell row_arr i ((tiles_needed k s * s - k + j) mod s)
        = cell row_arr i (((tiles_needed k s * s - k + j) mod s) mod p)"
      using assms(4,5) that(1) by (intro col_periodic_reduce)
    then show ?thesis
      using pad_before_index [OF assms(5,6) T that(2)] by simp
  qed
  moreover have "cell row_arr i (j - k) = cell row_arr i (nat ((int j - int k) mod int p))"
    if "i < nrows row_arr" "\<not> j < k" "j < ncols row_arr" for i j
  proof -
    have "cell row_arr i (j - k) = cell row_arr i ((j - k) mod p)"
      using assms(4,5) that by (intro col_periodic_reduce) simp_all
    then show ?thesis
      using kept_after_index [OF assms(5), of k j] that(2) by simp
  qed
  ultimately show ?thesis
    using pos k assms(1,7) by (simp add: shift_cols_right_tiled m)
next
  case (neg k)
  with assms(9) have k: "k \<le> ncols row_arr" by simp
  have m: "min s (ncols row_arr) = s" using assms(8) by simp
  have "cell row_arr i (k + j) = cell row_arr i (nat ((int j - (- int k)) mod int p))"
    if "i < nrows row_arr" "j < ncols row_arr - k" for i j
  proof -
    have "cell row_arr i (k + j) = cell row_arr i ((k + j) mod p)"
      using assms(4,5) that by (intro col_periodic_reduce) simp_all
    then show ?thesis
      using kept_before_index [OF assms(5), of k j] by simp
  qed
  moreover have "cell row_arr i (ncols row_arr - s + (j - (ncols row_arr - k)) mod s)
      = cell row_arr i (nat ((int j - (- int k)) mod int p))"
    if "i < nrows row_arr" "\<not> j < ncols row_arr - k" "j < ncols row_arr" for i j
  proof -
    have "(j - (ncols row_arr - k)) mod s < s"
      using assms(7) by simp
    then have "ncols row_arr - s + (j - (ncols row_arr - k)) mod s < ncols row_arr"
      using assms(7,8) by linarith
    then have "cell row_arr i (ncols row_arr - s + (j - (ncols row_arr - k)) mod s)
        = cell row_arr i ((ncols row_arr - s + (j - (ncols row_arr - k)) mod s) mod p)"
      using assms(4,5) that(1) by (intro col_periodic_reduce)
    moreover have "ncols row_arr - k \<le> j" using that(2) by simp
    ultimately show ?thesis
      using pad_after_index [OF assms(5,6,7,8) _ k, of j] by simp
  qed
  ultimately show ?thesis
    using neg k assms(1,7) by (simp add: shift_cols_left_tiled m)
next
  case zero
  have "cell row_arr i j = cell row_arr i (nat (int j mod int p))"
    if "i < nrows row_arr" "j < ncols row_arr" for i j
  proof -
    have "cell row_arr i j = cell row_arr i (j mod p)"
      using assms(4,5) that by (rule col_periodic_reduce)
    moreover have "nat (int j mod int p) = j mod p"
      by (simp add: zmod_int [symmetric] del: of_nat_mod)
    ultimately show ?thesis by simp
  qed
  with zero assms(1-3) show ?thesis
    by (simp add: shift_cols_unshifted)
qed

lemma period_index_in_range:
  assumes "0 < p" and "p \<le> n"
  shows "nat (z mod int p) < n"
proof -
  have "z mod int p < int p" using assms(1) by simp
  moreover have "0 \<le> z mod int p" using assms(1) by simp
  ultimately show ?thesis using assms(2) by linarith
qed

text \<open>
  \<open>shift_2d\<close> on a grid whose rows repeat with period \<open>p\<close> and whose columns repeat
  with period \<open>p'\<close>, with a stride that is a multiple of both: the result is the
  periodic pattern itself, moved by the shift. The padding and the kept content are
  one unbroken pattern.
\<close>

lemma shift_2d_continues_period:
  assumes "well_shaped g" and "row_periodic p g" and "col_periodic p' g"
    and "0 < p" and "0 < p'" and "p dvd s" and "p' dvd s" and "0 < s"
    and "s \<le> nrows g" and "s \<le> ncols g"
    and "\<bar>shift_row\<bar> \<le> int (nrows g)" and "\<bar>shift_col\<bar> \<le> int (ncols g)"
  shows "\<exists>out. shift_2d g (shift_row, shift_col) (int s) = Inr out
           \<and> nrows out = nrows g \<and> ncols out = ncols g
           \<and> (\<forall>i j. i < nrows g \<longrightarrow> j < ncols g \<longrightarrow>
                 cell out i j = cell g (nat ((int i - shift_row) mod int p))
                                       (nat ((int j - shift_col) mod int p')))"
proof -
  have p: "p \<le> nrows g" and p': "p' \<le> ncols g"
    using assms(6-10) by (auto dest: dvd_imp_le)
  obtain row_arr where r: "shift_rows g shift_row (int s) = Inr row_arr" "well_shaped row_arr"
      "nrows row_arr = nrows g" "ncols row_arr = ncols g"
      "\<And>i j. i < nrows g \<Longrightarrow> j < ncols g \<Longrightarrow>
         cell row_arr i j = cell g (nat ((int i - shift_row) mod int p)) j"
    using shift_rows_continues_period [OF assms(1,2,4,6,8,9,11)] by blast
  have "col_periodic p' row_arr"
  proof (rule col_periodicI)
    fix i j
    assume i: "i < nrows row_arr" and j: "j + p' < ncols row_arr"
    have "cell row_arr i (j + p') = cell g (nat ((int i - shift_row) mod int p)) (j + p')"
      using i j r(3,4) by (intro r(5)) simp_all
    also have "\<dots> = cell g (nat ((int i - shift_row) mod int p)) j"
      using assms(3) period_index_in_range [OF assms(4) p] j r(4)
      by (intro col_periodic_step) simp_all
    also have "\<dots> = cell row_arr i j"
      using i j r(3,4) by (intro r(5) [symmetric]) simp_all
    finally show "cell row_arr i (j + p') = cell row_arr i j" .
  qed
  with r(2-4) assms(5,7,8,10,12)
  obtain out where c: "shift_cols g row_arr shift_col (int s) = Inr out"
      "nrows out = nrows row_arr" "ncols out = ncols row_arr"
      "\<And>i j. i < nrows row_arr \<Longrightarrow> j < ncols row_arr \<Longrightarrow>
         cell out i j = cell row_arr i (nat ((int j - shift_col) mod int p'))"
    using shift_cols_continues_period [of row_arr g p' s shift_col] by auto
  have "cell out i j = cell g (nat ((int i - shift_row) mod int p))
                                       (nat ((int j - shift_col) mod int p'))"
    if "i < nrows g" "j < ncols g" for i j
  proof -
    have "cell out i j = cell row_arr i (nat ((int j - shift_col) mod int p'))"
      using that r(3,4) by (intro c(4)) simp_all
    also have "\<dots> = cell g (nat ((int i - shift_row) mod int p))
                                       (nat ((int j - shift_col) mod int p'))"
      using that(1) period_index_in_range [OF assms(5) p'] by (intro r(5))
    finally show ?thesis .
  qed
  with r(1,3,4) c(1-3) show ?thesis
    by (simp add: shift_2d_def)
qed

section \<open>Every cell of \<open>add_border_2d\<close> for a stride within the grid\<close>

lemma border_source_in_range:
  assumes "0 < s" and "s \<le> n" and "i < n + 2 * b"
  shows "border_source b s n i < n"
proof -
  have "i mod s < s" and "(i - (n + b)) mod s < s"
    using assms(1) by simp_all
  then have "i mod s < n" and "n - s + (i - (n + b)) mod s < n"
    using assms(1,2) by linarith+
  moreover have "i - b < n" if "\<not> n + b \<le> i"
    using that assms(1,2) by linarith
  ultimately show ?thesis
    unfolding border_source_def by auto
qed

lemma cell_top_filled_border:
  assumes "nrows a = r + 2 * b" and "0 < s" and "s \<le> r" and "i < nrows a" and "j < ncols a"
  shows "cell (top_filled a b s) i j = (if i < b then cell a (b + i mod s) j else cell a i j)"
proof -
  have "min s (nrows a - b) = s"
    using assms(1,3) by simp
  then show ?thesis
    unfolding cell_top_filled [OF assms(4,5)] by (simp only:)
qed

lemma cell_bottom_filled_border:
  assumes "nrows a = r + 2 * b" and "0 < s" and "s \<le> r" and "i < nrows a" and "j < ncols a"
  shows "cell (bottom_filled a b s) i j =
     (if r + b \<le> i then cell a (b + (r - s + (i - (r + b)) mod s)) j else cell a i j)"
proof -
  have e1: "nrows a - b = r + b"
    using assms(1) by simp
  have e2: "min s (r + b) = s"
    using assms(3) by simp
  have e3: "r + b - s + y = b + (r - s + y)" for y
    using assms(3) by simp
  show ?thesis
    unfolding cell_bottom_filled [OF assms(4,5)] e1 e2 e3 ..
qed

lemma cell_left_filled_border:
  assumes "ncols a = c + 2 * b" and "0 < s" and "s \<le> c" and "i < nrows a" and "j < ncols a"
  shows "cell (left_filled a b s) i j = (if j < b then cell a i (b + j mod s) else cell a i j)"
proof -
  have "min s (ncols a - b) = s"
    using assms(1,3) by simp
  then show ?thesis
    unfolding cell_left_filled [OF assms(4,5)] by (simp only:)
qed

lemma cell_right_filled_border:
  assumes "ncols a = c + 2 * b" and "0 < s" and "s \<le> c" and "i < nrows a" and "j < ncols a"
  shows "cell (right_filled a b s) i j =
     (if c + b \<le> j then cell a i (b + (c - s + (j - (c + b)) mod s)) else cell a i j)"
proof -
  have e1: "ncols a - b = c + b"
    using assms(1) by simp
  have e2: "min s (c + b) = s"
    using assms(3) by simp
  have e3: "c + b - s + y = b + (c - s + y)" for y
    using assms(3) by simp
  show ?thesis
    unfolding cell_right_filled [OF assms(4,5)] e1 e2 e3 ..
qed

lemma rows_after_top_bottom:
  assumes "nrows a = r + 2 * b" and "0 < s" and "s \<le> r" and "i < nrows a" and "j < ncols a"
  shows "cell (bottom_filled (top_filled a b s) b s) i j = cell a (b + border_source b s r i) j"
proof -
  have t: "nrows (top_filled a b s) = r + 2 * b" "ncols (top_filled a b s) = ncols a"
    using assms(1) by simp_all
  consider (top) "i < b" | (bottom) "r + b \<le> i" | (mid) "\<not> i < b" "\<not> r + b \<le> i"
    by blast
  then show ?thesis
  proof cases
    case top
    then have nb: "\<not> r + b \<le> i" by simp
    have "cell (bottom_filled (top_filled a b s) b s) i j = cell (top_filled a b s) i j"
      using cell_bottom_filled_border [of "top_filled a b s" r b s i j] t assms(1-5) nb by simp
    also have "\<dots> = cell a (b + i mod s) j"
      using cell_top_filled_border [OF assms] top by simp
    also have "\<dots> = cell a (b + border_source b s r i) j"
      using top by (simp add: border_source_def)
    finally show ?thesis .
  next
    case bottom
    define x where "x = (i - (r + b)) mod s"
    have x: "x < s" unfolding x_def using assms(2) by simp
    then have inr: "b + (r - s + x) < nrows a" and notop: "\<not> b + (r - s + x) < b"
      using assms(1,3) by simp_all
    have "cell (bottom_filled (top_filled a b s) b s) i j = cell (top_filled a b s) (b + (r - s + x)) j"
      using cell_bottom_filled_border [of "top_filled a b s" r b s i j] t assms(1-5) bottom
      by (simp add: x_def)
    also have "\<dots> = cell a (b + (r - s + x)) j"
      using cell_top_filled_border [OF assms(1-3) inr assms(5)] notop by simp
    also have "\<dots> = cell a (b + border_source b s r i) j"
      using bottom by (simp add: border_source_def x_def)
    finally show ?thesis .
  next
    case mid
    have "cell (bottom_filled (top_filled a b s) b s) i j = cell (top_filled a b s) i j"
      using cell_bottom_filled_border [of "top_filled a b s" r b s i j] t assms(1-5) mid by simp
    also have "\<dots> = cell a i j"
      using cell_top_filled_border [OF assms] mid by simp
    also have "\<dots> = cell a (b + border_source b s r i) j"
      using mid by (simp add: border_source_def)
    finally show ?thesis .
  qed
qed

lemma cols_after_left_right:
  assumes "ncols a = c + 2 * b" and "0 < s" and "s \<le> c" and "i < nrows a" and "j < ncols a"
  shows "cell (right_filled (left_filled a b s) b s) i j = cell a i (b + border_source b s c j)"
proof -
  have t: "ncols (left_filled a b s) = c + 2 * b" "nrows (left_filled a b s) = nrows a"
    using assms(1) by simp_all
  consider (left) "j < b" | (right) "c + b \<le> j" | (mid) "\<not> j < b" "\<not> c + b \<le> j"
    by blast
  then show ?thesis
  proof cases
    case left
    then have nb: "\<not> c + b \<le> j" by simp
    have "cell (right_filled (left_filled a b s) b s) i j = cell (left_filled a b s) i j"
      using cell_right_filled_border [of "left_filled a b s" c b s i j] t assms(1-5) nb by simp
    also have "\<dots> = cell a i (b + j mod s)"
      using cell_left_filled_border [OF assms] left by simp
    also have "\<dots> = cell a i (b + border_source b s c j)"
      using left by (simp add: border_source_def)
    finally show ?thesis .
  next
    case right
    define x where "x = (j - (c + b)) mod s"
    have x: "x < s" unfolding x_def using assms(2) by simp
    then have inr: "b + (c - s + x) < ncols a" and noleft: "\<not> b + (c - s + x) < b"
      using assms(1,3) by simp_all
    have "cell (right_filled (left_filled a b s) b s) i j = cell (left_filled a b s) i (b + (c - s + x))"
      using cell_right_filled_border [of "left_filled a b s" c b s i j] t assms(1-5) right
      by (simp add: x_def)
    also have "\<dots> = cell a i (b + (c - s + x))"
      using cell_left_filled_border [OF assms(1-4) inr] noleft by simp
    also have "\<dots> = cell a i (b + border_source b s c j)"
      using right by (simp add: border_source_def x_def)
    finally show ?thesis .
  next
    case mid
    have "cell (right_filled (left_filled a b s) b s) i j = cell (left_filled a b s) i j"
      using cell_right_filled_border [of "left_filled a b s" c b s i j] t assms(1-5) mid by simp
    also have "\<dots> = cell a i j"
      using cell_left_filled_border [OF assms] mid by simp
    also have "\<dots> = cell a i (b + border_source b s c j)"
      using mid by (simp add: border_source_def)
    finally show ?thesis .
  qed
qed

lemma cell_tiled_border:
  assumes "0 < s" and "s \<le> nrows g" and "s \<le> ncols g"
    and "i < nrows g + 2 * b" and "j < ncols g + 2 * b"
  shows "cell (tiled_border g b s) i j =
         cell g (border_source b s (nrows g) i) (border_source b s (ncols g) j)"
proof -
  have r: "border_source b s (nrows g) i < nrows g"
    using assms(1,2,4) by (rule border_source_in_range)
  have c: "border_source b s (ncols g) j < ncols g"
    using assms(1,3,5) by (rule border_source_in_range)
  have "cell (tiled_border g b s) i j =
      cell (bottom_filled (top_filled (centred g b) b s) b s) i
        (b + border_source b s (ncols g) j)"
    unfolding tiled_border_def
    using assms by (intro cols_after_left_right) simp_all
  also have "\<dots> = cell (centred g b) (b + border_source b s (nrows g) i)
        (b + border_source b s (ncols g) j)"
    using assms c by (intro rows_after_top_bottom) simp_all
  also have "\<dots> = cell g (border_source b s (nrows g) i) (border_source b s (ncols g) j)"
    using r c by (simp add: cell_centred)
  finally show ?thesis .
qed

lemma border_source_mod_period:
  assumes "0 < p" and "p dvd s" and "0 < s" and "s \<le> n" and "b \<le> i \<or> s dvd b"
  shows "border_source b s n i mod p = nat ((int i - int b) mod int p)"
proof -
  consider (before) "i < b" | (after) "n + b \<le> i" | (mid) "\<not> i < b" "\<not> n + b \<le> i"
    by blast
  then show ?thesis
  proof cases
    case before
    with assms(5) have "s dvd b" by simp
    with assms(2) have "int p dvd int b" by (simp add: dvd_trans)
    then obtain c where c: "int b = int p * c" ..
    have "border_source b s n i mod p = (i mod s) mod p"
      using before by (simp add: border_source_def)
    also have "\<dots> = i mod p"
      using assms(2) by (rule mod_mod_cancel)
    finally have "int (border_source b s n i mod p) = int i mod int p"
      by (simp only: zmod_int)
    also have "\<dots> = (int i - int b) mod int p"
    proof -
      have "int i = (int i - int b) + c * int p"
        using c by (simp add: algebra_simps)
      then have "int i mod int p = ((int i - int b) + c * int p) mod int p"
        by simp
      then show ?thesis by (simp only: mod_mult_self1)
    qed
    finally show ?thesis by simp
  next
    case after
    have "border_source b s n i mod p = (n - s + (i - (n + b)) mod s) mod p"
      using after by (simp add: border_source_def)
    also have "\<dots> = (n - s + ((i - (n + b)) mod s) mod p) mod p"
      by (simp only: mod_add_right_eq)
    also have "((i - (n + b)) mod s) mod p = (i - (n + b)) mod p"
      using assms(2) by (rule mod_mod_cancel)
    also have "(n - s + (i - (n + b)) mod p) mod p = (n - s + (i - (n + b))) mod p"
      by (simp only: mod_add_right_eq)
    also have "n - s + (i - (n + b)) = i - b - s"
      using assms(4) after by simp
    finally have "int (border_source b s n i mod p) = int (i - b - s) mod int p"
      by (simp only: zmod_int)
    also have "int (i - b - s) = int i - int b - int s"
      using assms(4) after by (simp add: of_nat_diff)
    also have "(int i - int b - int s) mod int p = (int i - int b) mod int p"
    proof -
      have "int p dvd int s" using assms(2) by simp
      then obtain c where c: "int s = int p * c" ..
      have "int i - int b - int s = (int i - int b) + (- c) * int p"
        using c by (simp add: algebra_simps)
      then show ?thesis by (simp only: mod_mult_self1)
    qed
    finally show ?thesis by simp
  next
    case mid
    then have "border_source b s n i mod p = (i - b) mod p"
      by (simp add: border_source_def)
    also have "\<dots> = nat ((int i - int b) mod int p)"
      using assms(1) mid(1) by (intro kept_after_index) simp_all
    finally show ?thesis .
  qed
qed

text \<open>
  \<open>add_border_2d\<close> on a grid with periodic rows and columns and a stride that is a
  multiple of both periods: a cell of the result continues the pattern whenever it
  lies at or below the first interior row and at or right of the first interior
  column, and everywhere when \<open>stride\<close> divides \<open>border_width\<close>. Nothing is said
  about the top and left borders otherwise.
\<close>

lemma add_border_2d_continues_period:
  assumes "row_periodic p g" and "col_periodic p' g"
    and "0 < p" and "0 < p'" and "p dvd s" and "p' dvd s" and "0 < s"
    and "s \<le> nrows g" and "s \<le> ncols g" and "0 < b"
  shows "\<exists>out. add_border_2d g (int b) (int s) = Inr out
           \<and> nrows out = nrows g + 2 * b \<and> ncols out = ncols g + 2 * b
           \<and> (\<forall>i j. i < nrows g + 2 * b \<longrightarrow> j < ncols g + 2 * b \<longrightarrow>
                 (b \<le> i \<or> s dvd b) \<longrightarrow> (b \<le> j \<or> s dvd b) \<longrightarrow>
                 cell out i j = cell g (nat ((int i - int b) mod int p))
                                       (nat ((int j - int b) mod int p')))"
proof -
  have out: "add_border_2d g (int b) (int s) = Inr (tiled_border g b s)"
    unfolding tiled_border_def using assms(10,7) by (rule add_border_2d_tiled)
  have "cell (tiled_border g b s) i j = cell g (nat ((int i - int b) mod int p))
                                       (nat ((int j - int b) mod int p'))"
    if i: "i < nrows g + 2 * b" and j: "j < ncols g + 2 * b"
      and ri: "b \<le> i \<or> s dvd b" and rj: "b \<le> j \<or> s dvd b" for i j
  proof -
    have r: "border_source b s (nrows g) i < nrows g"
      using assms(7,8) i by (rule border_source_in_range)
    have c: "border_source b s (ncols g) j < ncols g"
      using assms(7,9) j by (rule border_source_in_range)
    have r': "border_source b s (nrows g) i mod p < nrows g"
      using r mod_less_eq_dividend [of "border_source b s (nrows g) i" p] by linarith
    have "cell (tiled_border g b s) i j =
        cell g (border_source b s (nrows g) i) (border_source b s (ncols g) j)"
      using assms(7-9) i j by (rule cell_tiled_border)
    also have "\<dots> = cell g (border_source b s (nrows g) i mod p) (border_source b s (ncols g) j)"
      using assms(1,3) r c by (rule row_periodic_reduce)
    also have "\<dots> = cell g (border_source b s (nrows g) i mod p)
                            (border_source b s (ncols g) j mod p')"
      using assms(2,4) r' c by (rule col_periodic_reduce)
    also have "border_source b s (nrows g) i mod p = nat ((int i - int b) mod int p)"
      using assms(3,5,7,8) ri by (rule border_source_mod_period)
    also have "border_source b s (ncols g) j mod p' = nat ((int j - int b) mod int p')"
      using assms(4,6,7,9) rj by (rule border_source_mod_period)
    finally show ?thesis .
  qed
  with out show ?thesis
    by simp
qed

section \<open>The claims\<close>

subsection \<open>C1: border size and centre of \<open>add_border_2d\<close>\<close>

text \<open>
  Claim C1 asks that \<open>add_border_2d(g, b, stride)\<close> returns a grid of
  \<open>(rows + 2b) \<times> (cols + 2b)\<close> whose centre is \<open>g\<close>, "including the case
  \<open>b = 0\<close>". For \<open>b > 0\<close> this is lemma \<open>add_border_2d_positive\<close> above.
  For \<open>b = 0\<close> the source writes \<open>new_arr[0:-0, 0:-0] = arr\<close>; the slice
  \<open>0:-0\<close> is \<open>0:0\<close>, the empty region, and NumPy cannot broadcast a 6 by 6
  array into a region of shape \<open>(0, 0)\<close>: the call raises \<open>ValueError\<close>, with
  \<open>stride = 0\<close> and with \<open>stride = 1\<close> alike. A 1 by 1 input does broadcast into
  the empty region, which writes nothing: the call returns \<open>[[0]]\<close>, not the input.
\<close>

theorem add_border_2d_zero_width_fails:
  "add_border_2d grid6 0 0 = Inl ValueError \<and> add_border_2d grid6 0 1 = Inl ValueError
   \<and> add_border_2d \<lparr>nrows = 1, ncols = 1, elems = [[5 :: 16 word]]\<rparr> 0 0
       = Inr \<lparr>nrows = 1, ncols = 1, elems = [[0]]\<rparr>"
  by code_simp

subsection \<open>C2: out-of-range shifts\<close>

text \<open>
  Claim C2, as amended. \<open>shift_2d\<close> has no range check and no
  \<open>ShiftOutOfRange\<close> error. For a shift with \<open>|shift_row| \<ge> rows\<close> or
  \<open>|shift_col| \<ge> cols\<close>: with \<open>stride \<le> 0\<close> it returns, without any error, the
  all-zero grid of the shape of the input; and when neither magnitude exceeds its
  dimension (for instance \<open>shift_row = 6\<close> on a 6-row grid) it returns, for every
  stride, a grid of the shape of the input.
\<close>

theorem shift_2d_out_of_range_not_rejected:
  assumes "well_shaped g"
    and "int (nrows g) \<le> \<bar>shift_row\<bar> \<or> int (ncols g) \<le> \<bar>shift_col\<bar>"
  shows "(stride \<le> 0 \<longrightarrow> shift_2d g (shift_row, shift_col) stride = Inr (zeros_like g))
       \<and> (\<bar>shift_row\<bar> \<le> int (nrows g) \<and> \<bar>shift_col\<bar> \<le> int (ncols g) \<longrightarrow>
            (\<exists>out. shift_2d g (shift_row, shift_col) stride = Inr out
               \<and> nrows out = nrows g \<and> ncols out = ncols g))"
proof (intro conjI impI)
  assume "stride \<le> 0"
  with assms(1) have "shift_2d g (shift_row, shift_col) stride =
     Inr (mk_array (nrows g) (ncols g)
       (\<lambda>i j. if shift_row \<le> int i \<and> int i - shift_row < int (nrows g)
                  \<and> shift_col \<le> int j \<and> int j - shift_col < int (ncols g)
               then cell g (nat (int i - shift_row)) (nat (int j - shift_col)) else 0))"
    by (rule shift_2d_zero_fill)
  also have "mk_array (nrows g) (ncols g)
       (\<lambda>i j. if shift_row \<le> int i \<and> int i - shift_row < int (nrows g)
                  \<and> shift_col \<le> int j \<and> int j - shift_col < int (ncols g)
               then cell g (nat (int i - shift_row)) (nat (int j - shift_col)) else 0)
     = zeros_like g"
    unfolding zeros_like_def
  proof (rule mk_array_cong)
    fix i j
    assume "i < nrows g" and "j < ncols g"
    with assms(2) have "\<not> (shift_row \<le> int i \<and> int i - shift_row < int (nrows g)
                  \<and> shift_col \<le> int j \<and> int j - shift_col < int (ncols g))"
      by linarith
    then show "(if shift_row \<le> int i \<and> int i - shift_row < int (nrows g)
                  \<and> shift_col \<le> int j \<and> int j - shift_col < int (ncols g)
               then cell g (nat (int i - shift_row)) (nat (int j - shift_col)) else 0) = 0"
      by (rule if_not_P)
  qed
  finally show "shift_2d g (shift_row, shift_col) stride = Inr (zeros_like g)" .
next
  assume "\<bar>shift_row\<bar> \<le> int (nrows g) \<and> \<bar>shift_col\<bar> \<le> int (ncols g)"
  with assms(1) shift_2d_in_range [of g shift_row shift_col stride]
  show "\<exists>out. shift_2d g (shift_row, shift_col) stride = Inr out
               \<and> nrows out = nrows g \<and> ncols out = ncols g"
    by blast
qed

text \<open>
  The theorem at the 6 by 6 grid, \<open>shift_row = 6\<close>, \<open>shift_col = 0\<close>, with
  \<open>stride = 0\<close> and with \<open>stride = 1\<close>.
\<close>

theorem shift_2d_out_of_range_not_rejected_witness:
  "well_shaped grid6 \<and> (int (nrows grid6) \<le> \<bar>6\<bar> \<or> int (ncols grid6) \<le> \<bar>0\<bar>)
   \<and> (0::int) \<le> 0 \<and> shift_2d grid6 (6, 0) 0 = Inr (zeros_like grid6)
   \<and> \<bar>6\<bar> \<le> int (nrows grid6) \<and> \<bar>0\<bar> \<le> int (ncols grid6)
   \<and> (\<exists>out. shift_2d grid6 (6, 0) 1 = Inr out \<and> nrows out = nrows grid6 \<and> ncols out = ncols grid6)"
  using shift_2d_out_of_range_not_rejected [of grid6 6 0 0]
    shift_2d_out_of_range_not_rejected [of grid6 6 0 1]
  by (simp add: well_shaped_grid6 shape_grid6)

text \<open>
  The claim as stated fails at its own example: \<open>shift_row = 6\<close> on the 6-row
  grid with \<open>stride = 1\<close> raises nothing and returns six copies of row 0.
\<close>

theorem shift_2d_six_rows_by_six_counterexample:
  "shift_2d grid6 (6, 0) 1 =
     Inr \<lparr>nrows = 6, ncols = 6, elems = replicate 6 [1, 2, 3, 4, 5, 6]\<rparr>"
  by code_simp

subsection \<open>C3: periodic patterns across the border\<close>

text \<open>
  Claim C3 asks that a pattern of period \<open>p\<close> continues unbroken into the rows
  and columns that \<open>shift_2d\<close> and \<open>add_border_2d\<close> synthesise when \<open>stride\<close> is
  a multiple of \<open>p\<close>, for any border width. \<open>add_border_2d\<close> fills the top and the
  left border with the first \<open>border_width\<close> rows (columns) of the tiled block, so
  when \<open>border_width\<close> is not a multiple of \<open>stride\<close> the border ends on the wrong
  phase. On the mosaic of period 2 with \<open>border_width = 1\<close>, \<open>stride = 2\<close> the top
  border row repeats interior row 0 (rows 0 and 1 of the result are equal) and the
  left border column repeats interior column 0; the bottom and right borders continue
  the pattern. The rest of the claim holds: \<open>shift_2d\<close> continues the pattern for
  every shift (lemma \<open>shift_2d_continues_period\<close>), and \<open>add_border_2d\<close> does so
  below and right of the interior, and everywhere when \<open>stride\<close> divides
  \<open>border_width\<close> (lemma \<open>add_border_2d_continues_period\<close>).
\<close>

theorem add_border_2d_breaks_period:
  "row_periodic 2 bayer4 \<and> col_periodic 2 bayer4
   \<and> add_border_2d bayer4 1 2 =
     Inr \<lparr>nrows = 6, ncols = 6,
          elems = [[1, 1, 2, 1, 2, 1],
                   [1, 1, 2, 1, 2, 1],
                   [3, 3, 4, 3, 4, 3],
                   [1, 1, 2, 1, 2, 1],
                   [3, 3, 4, 3, 4, 3],
                   [1, 1, 2, 1, 2, 1]]\<rparr>
   \<and> \<not> row_periodic 2 (projr (add_border_2d bayer4 1 2))
   \<and> \<not> col_periodic 2 (projr (add_border_2d bayer4 1 2))"
  by code_simp

subsection \<open>C4: which crop of the tiled block fills each border\<close>

text \<open>
  Claim C4, as amended. In \<open>add_border_2d\<close> with \<open>border_width = b > 0\<close> and
  \<open>0 < stride = s \<le> rows, cols\<close>, each of the four borders (between the corners)
  is the leading crop \<open>[:b]\<close> of the tiled block of \<open>s\<close> rows or columns next to
  it: the top border is the first \<open>b\<close> rows of the tiled first \<open>s\<close> rows of the
  input, the bottom border the first \<open>b\<close> rows of the tiled last \<open>s\<close> rows, the left
  border the first \<open>b\<close> columns of the tiled first \<open>s\<close> columns, and the right
  border the first \<open>b\<close> columns of the tiled last \<open>s\<close> columns. The number of
  tiles is \<open>quot = tiles_needed b s\<close>.
\<close>

theorem border_crops_are_leading:
  assumes "0 < b" and "0 < s" and "s \<le> nrows g" and "s \<le> ncols g"
  shows "\<exists>out t_top t_bottom t_left t_right.
     add_border_2d g (int b) (int s) = Inr out
     \<and> tile (getitem g (None, Some (int s)) whole) (int (tiles_needed b s)) 1 = Inr t_top
     \<and> getitem out (None, Some (int b)) (Some (int b), Some (- int b))
         = getitem t_top (None, Some (int b)) whole
     \<and> tile (getitem g (Some (- int s), None) whole) (int (tiles_needed b s)) 1 = Inr t_bottom
     \<and> getitem out (Some (- int b), None) (Some (int b), Some (- int b))
         = getitem t_bottom (None, Some (int b)) whole
     \<and> tile (getitem g whole (None, Some (int s))) 1 (int (tiles_needed b s)) = Inr t_left
     \<and> getitem out (Some (int b), Some (- int b)) (None, Some (int b))
         = getitem t_left whole (None, Some (int b))
     \<and> tile (getitem g whole (Some (- int s), None)) 1 (int (tiles_needed b s)) = Inr t_right
     \<and> getitem out (Some (int b), Some (- int b)) (Some (- int b), None)
         = getitem t_right whole (None, Some (int b))"
proof (intro exI conjI)
  show "add_border_2d g (int b) (int s) = Inr (tiled_border g b s)"
    unfolding tiled_border_def using assms(1,2) by (rule add_border_2d_tiled)
  show "tile (getitem g (None, Some (int s)) whole) (int (tiles_needed b s)) 1 =
      Inr (mk_array (tiles_needed b s * s) (ncols g) (\<lambda>i j. cell g (i mod s) j))"
    using assms(2,3) by (rule tile_first_rows)
  show "getitem (tiled_border g b s) (None, Some (int b)) (Some (int b), Some (- int b)) =
      getitem (mk_array (tiles_needed b s * s) (ncols g) (\<lambda>i j. cell g (i mod s) j))
        (None, Some (int b)) whole"
    using assms by (simp add: top_border_leading leading_rows_of_tiles)
  show "tile (getitem g (Some (- int s), None) whole) (int (tiles_needed b s)) 1 =
      Inr (mk_array (tiles_needed b s * s) (ncols g) (\<lambda>i j. cell g (nrows g - s + i mod s) j))"
    using assms(2,3) by (rule tile_last_rows)
  show "getitem (tiled_border g b s) (Some (- int b), None) (Some (int b), Some (- int b)) =
      getitem (mk_array (tiles_needed b s * s) (ncols g) (\<lambda>i j. cell g (nrows g - s + i mod s) j))
        (None, Some (int b)) whole"
    using assms by (simp add: bottom_border_leading leading_rows_of_tiles)
  show "tile (getitem g whole (None, Some (int s))) 1 (int (tiles_needed b s)) =
      Inr (mk_array (nrows g) (tiles_needed b s * s) (\<lambda>i j. cell g i (j mod s)))"
    using assms(2,4) by (rule tile_first_cols)
  show "getitem (tiled_border g b s) (Some (int b), Some (- int b)) (None, Some (int b)) =
      getitem (mk_array (nrows g) (tiles_needed b s * s) (\<lambda>i j. cell g i (j mod s)))
        whole (None, Some (int b))"
    using assms by (simp add: left_border_leading leading_cols_of_tiles)
  show "tile (getitem g whole (Some (- int s), None)) 1 (int (tiles_needed b s)) =
      Inr (mk_array (nrows g) (tiles_needed b s * s) (\<lambda>i j. cell g i (ncols g - s + j mod s)))"
    using assms(2,4) by (rule tile_last_cols)
  show "getitem (tiled_border g b s) (Some (int b), Some (- int b)) (Some (- int b), None) =
      getitem (mk_array (nrows g) (tiles_needed b s * s) (\<lambda>i j. cell g i (ncols g - s + j mod s)))
        whole (None, Some (int b))"
    using assms by (simp add: right_border_leading leading_cols_of_tiles)
qed

text \<open>
  The theorem at the 6 by 6 grid with \<open>border_width = 1\<close> and \<open>stride = 2\<close>.
\<close>

theorem border_crops_are_leading_witness:
  "(0::nat) < 1 \<and> (0::nat) < 2 \<and> 2 \<le> nrows grid6 \<and> 2 \<le> ncols grid6
   \<and> (\<exists>out t_top t_bottom t_left t_right.
     add_border_2d grid6 1 2 = Inr out
     \<and> tile (getitem grid6 (None, Some 2) whole) 1 1 = Inr t_top
     \<and> getitem out (None, Some 1) (Some 1, Some (- 1)) = getitem t_top (None, Some 1) whole
     \<and> tile (getitem grid6 (Some (- 2), None) whole) 1 1 = Inr t_bottom
     \<and> getitem out (Some (- 1), None) (Some 1, Some (- 1)) = getitem t_bottom (None, Some 1) whole
     \<and> tile (getitem grid6 whole (None, Some 2)) 1 1 = Inr t_left
     \<and> getitem out (Some 1, Some (- 1)) (None, Some 1) = getitem t_left whole (None, Some 1)
     \<and> tile (getitem grid6 whole (Some (- 2), None)) 1 1 = Inr t_right
     \<and> getitem out (Some 1, Some (- 1)) (Some (- 1), None) = getitem t_right whole (None, Some 1))"
proof -
  have q: "tiles_needed (Suc 0) 2 = 1"
    by (simp add: tiles_needed_def)
  show ?thesis
    using border_crops_are_leading [of 1 2 grid6]
    by (simp add: shape_grid6 q)
qed

text \<open>
  The claim as stated (trailing crop for the bottom border) fails there: the bottom
  border is row 4 of the grid, the first row of the tiled block of rows 4 and 5,
  while the trailing crop \<open>[-1:]\<close> of that block is row 5.
\<close>

theorem bottom_border_not_trailing_counterexample:
  "getitem (projr (add_border_2d grid6 1 2)) (Some (- 1), None) (Some 1, Some (- 1))
     = \<lparr>nrows = 1, ncols = 6, elems = [[25, 26, 27, 28, 29, 30]]\<rparr>
   \<and> tile (getitem grid6 (Some (- 2), None) whole) 1 1
     = Inr \<lparr>nrows = 2, ncols = 6,
            elems = [[25, 26, 27, 28, 29, 30], [31, 32, 33, 34, 35, 36]]\<rparr>
   \<and> getitem \<lparr>nrows = 2, ncols = 6,
              elems = [[25, 26, 27, 28, 29, 30], [31, 32, 33, 34, 35, 36 :: 16 word]]\<rparr>
         (Some (- 1), None) whole
     = \<lparr>nrows = 1, ncols = 6, elems = [[31, 32, 33, 34, 35, 36]]\<rparr>"
  by code_simp

subsection \<open>C5: strides that the specification calls invalid\<close>

text \<open>
  Claim C5, as amended. Neither function validates \<open>stride\<close>, and neither has an
  \<open>InvalidStride\<close> error. With \<open>stride < 0\<close> both return exactly what they return
  with \<open>stride = 0\<close> (zero fill). With a stride larger than the number of rows or
  of columns they raise nothing either: \<open>shift_2d\<close> with an in-range shift returns
  a grid of the shape of the input, and \<open>add_border_2d\<close> with a positive border
  width returns a grid of \<open>(rows + 2b) \<times> (cols + 2b)\<close> (slicing clamps the source
  block to the rows and columns there are).
\<close>

theorem stride_not_validated:
  assumes "well_shaped g"
  shows "(stride < 0 \<longrightarrow> shift_2d g (shift_row, shift_col) stride = shift_2d g (shift_row, shift_col) 0
            \<and> add_border_2d g b stride = add_border_2d g b 0)
       \<and> (int (nrows g) < stride \<or> int (ncols g) < stride \<longrightarrow>
            (\<bar>shift_row\<bar> < int (nrows g) \<and> \<bar>shift_col\<bar> < int (ncols g) \<longrightarrow>
               (\<exists>out. shift_2d g (shift_row, shift_col) stride = Inr out
                  \<and> nrows out = nrows g \<and> ncols out = ncols g))
          \<and> (0 < b \<longrightarrow>
               (\<exists>out. add_border_2d g b stride = Inr out
                  \<and> nrows out = nrows g + 2 * nat b \<and> ncols out = ncols g + 2 * nat b)))"
proof (intro conjI impI)
  assume "stride < 0"
  then show "shift_2d g (shift_row, shift_col) stride = shift_2d g (shift_row, shift_col) 0"
    by (rule shift_2d_negative_stride)
next
  assume "stride < 0"
  then show "add_border_2d g b stride = add_border_2d g b 0"
    by (rule add_border_2d_negative_stride)
next
  assume "\<bar>shift_row\<bar> < int (nrows g) \<and> \<bar>shift_col\<bar> < int (ncols g)"
  then have "\<bar>shift_row\<bar> \<le> int (nrows g)" and "\<bar>shift_col\<bar> \<le> int (ncols g)"
    by simp_all
  with assms shift_2d_in_range [of g shift_row shift_col stride]
  show "\<exists>out. shift_2d g (shift_row, shift_col) stride = Inr out
          \<and> nrows out = nrows g \<and> ncols out = ncols g"
    by blast
next
  assume "0 < b"
  then have pos: "0 < nat b" and eq: "b = int (nat b)" by simp_all
  from add_border_2d_positive [OF pos, of g stride] eq
  show "\<exists>out. add_border_2d g b stride = Inr out
          \<and> nrows out = nrows g + 2 * nat b \<and> ncols out = ncols g + 2 * nat b"
    by auto
qed

text \<open>
  The theorem at the 6 by 6 grid, with \<open>stride = -1\<close> and with \<open>stride = 7\<close>.
\<close>

theorem stride_not_validated_witness:
  "well_shaped grid6
   \<and> shift_2d grid6 (1, 0) (- 1) = shift_2d grid6 (1, 0) 0
   \<and> add_border_2d grid6 2 (- 1) = add_border_2d grid6 2 0
   \<and> (\<exists>out. shift_2d grid6 (1, 0) 7 = Inr out \<and> nrows out = 6 \<and> ncols out = 6)
   \<and> (\<exists>out. add_border_2d grid6 2 7 = Inr out \<and> nrows out = 10 \<and> ncols out = 10)"
  using stride_not_validated [OF well_shaped_grid6, of "- 1" 1 0 2]
    stride_not_validated [OF well_shaped_grid6, of 7 1 0 2]
  by (simp add: well_shaped_grid6 shape_grid6)

text \<open>
  The claim as stated fails on the 6 by 6 grid: \<open>shift_2d(grid, (1, 0), -1)\<close>
  returns the zero-filled shift, and \<open>shift_2d(grid, (1, 0), 7)\<close> returns the grid
  rotated by one row (the clamped block is the whole grid, and its last row is
  stacked on top). Neither raises.
\<close>

theorem invalid_stride_counterexample:
  "shift_2d grid6 (1, 0) (- 1) =
     Inr \<lparr>nrows = 6, ncols = 6, elems = replicate 6 0 # take 5 (elems grid6)\<rparr>
   \<and> shift_2d grid6 (1, 0) 7 =
     Inr \<lparr>nrows = 6, ncols = 6, elems = elems grid6 ! 5 # take 5 (elems grid6)\<rparr>"
  by code_simp

subsection \<open>C6: the zero shift\<close>

text \<open>
  Claim C6. For every grid and every stride (zero, positive, or any other integer),
  \<open>shift_2d(g, (0, 0), stride)\<close> returns a grid equal to \<open>g\<close>.
\<close>

theorem shift_2d_zero_shift_identity:
  assumes "well_shaped g"
  shows "shift_2d g (0, 0) stride = Inr g"
  using assms by (simp add: shift_2d_def shift_rows_unshifted shift_cols_unshifted)

theorem shift_2d_zero_shift_identity_witness:
  "well_shaped grid6 \<and> shift_2d grid6 (0, 0) 0 = Inr grid6 \<and> shift_2d grid6 (0, 0) 2 = Inr grid6"
  using shift_2d_zero_shift_identity [of grid6 0] shift_2d_zero_shift_identity [of grid6 2]
  by (simp add: well_shaped_grid6)

subsection \<open>C7: zero fill\<close>

text \<open>
  Claim C7. With \<open>stride = 0\<close>, \<open>shift_2d\<close> returns a grid of the shape of the
  input in which every cell of a vacated row or column is zero and every other cell
  \<open>(i, j)\<close> holds the input's cell \<open>(i - shift_row, j - shift_col)\<close> (for every
  shift, in range or not). With \<open>stride = 0\<close> and \<open>border_width \<ge> 0\<close>, every cell
  of the four border regions of a grid returned by \<open>add_border_2d\<close> is zero, and
  for \<open>border_width > 0\<close> a grid of \<open>(rows + 2b) \<times> (cols + 2b)\<close> is returned.
\<close>

theorem zero_fill_is_exact:
  assumes "well_shaped g"
  shows "(\<exists>out. shift_2d g (shift_row, shift_col) 0 = Inr out
            \<and> nrows out = nrows g \<and> ncols out = ncols g
            \<and> (\<forall>i j. i < nrows g \<longrightarrow> j < ncols g \<longrightarrow>
                  cell out i j =
                    (if int i < shift_row \<or> int (nrows g) + shift_row \<le> int i
                        \<or> int j < shift_col \<or> int (ncols g) + shift_col \<le> int j
                     then 0 else cell g (nat (int i - shift_row)) (nat (int j - shift_col)))))
       \<and> (0 \<le> b \<longrightarrow> (\<forall>out. add_border_2d g b 0 = Inr out \<longrightarrow>
              (\<forall>i j. i < nrows out \<longrightarrow> j < ncols out \<longrightarrow>
                 (i < nat b \<or> nat b + nrows g \<le> i \<or> j < nat b \<or> nat b + ncols g \<le> j) \<longrightarrow>
                 cell out i j = 0)))
       \<and> (0 < b \<longrightarrow> (\<exists>out. add_border_2d g b 0 = Inr out
              \<and> nrows out = nrows g + 2 * nat b \<and> ncols out = ncols g + 2 * nat b))"
proof (intro conjI impI allI)
  have "shift_2d g (shift_row, shift_col) 0 =
     Inr (mk_array (nrows g) (ncols g)
       (\<lambda>i j. if shift_row \<le> int i \<and> int i - shift_row < int (nrows g)
                  \<and> shift_col \<le> int j \<and> int j - shift_col < int (ncols g)
               then cell g (nat (int i - shift_row)) (nat (int j - shift_col)) else 0))"
    using assms by (intro shift_2d_zero_fill) simp_all
  then show "\<exists>out. shift_2d g (shift_row, shift_col) 0 = Inr out
            \<and> nrows out = nrows g \<and> ncols out = ncols g
            \<and> (\<forall>i j. i < nrows g \<longrightarrow> j < ncols g \<longrightarrow>
                  cell out i j =
                    (if int i < shift_row \<or> int (nrows g) + shift_row \<le> int i
                        \<or> int j < shift_col \<or> int (ncols g) + shift_col \<le> int j
                     then 0 else cell g (nat (int i - shift_row)) (nat (int j - shift_col))))"
    by auto
next
  fix out i j
  assume b: "0 \<le> b" and out: "add_border_2d g b 0 = Inr out"
    and i: "i < nrows out" and j: "j < ncols out"
    and border: "i < nat b \<or> nat b + nrows g \<le> i \<or> j < nat b \<or> nat b + ncols g \<le> j"
  show "cell out i j = 0"
  proof (cases "b = 0")
    case True
    with out have "nrows out = nrows g" and "ncols out = ncols g"
      by (simp_all add: add_border_2d_zero_width_shape)
    with i j border True show ?thesis by simp
  next
    case False
    with b have pos: "0 < nat b" and eq: "b = int (nat b)" by simp_all
    from out have "out = centred g (nat b)"
      using add_border_2d_zero_fill [OF pos, of 0 g] eq by simp
    with i j border show ?thesis
      by (auto simp: cell_centred)
  qed
next
  assume "0 < b"
  then have pos: "0 < nat b" and eq: "b = int (nat b)" by simp_all
  have "add_border_2d g (int (nat b)) 0 = Inr (centred g (nat b))"
    using pos by (intro add_border_2d_zero_fill) simp_all
  with eq show "\<exists>out. add_border_2d g b 0 = Inr out
              \<and> nrows out = nrows g + 2 * nat b \<and> ncols out = ncols g + 2 * nat b"
    by simp
qed

text \<open>
  The theorem at the 6 by 6 grid: the shift \<open>(1, -2)\<close> and the border width 2.
\<close>

theorem zero_fill_is_exact_witness:
  "well_shaped grid6
   \<and> (\<exists>out. shift_2d grid6 (1, - 2) 0 = Inr out \<and> nrows out = 6 \<and> ncols out = 6
          \<and> cell out 0 0 = 0 \<and> cell out 3 5 = 0 \<and> cell out 1 0 = cell grid6 0 2)
   \<and> (\<exists>out. add_border_2d grid6 2 0 = Inr out \<and> nrows out = 10 \<and> ncols out = 10
          \<and> cell out 1 5 = 0 \<and> cell out 5 0 = 0 \<and> cell out 9 9 = 0 \<and> cell out 4 8 = 0)"
proof -
  from zero_fill_is_exact [OF well_shaped_grid6, of 1 "- 2" 2]
  obtain out1 out2 where
    s: "shift_2d grid6 (1, - 2) 0 = Inr out1" "nrows out1 = nrows grid6" "ncols out1 = ncols grid6"
      "\<And>i j. i < nrows grid6 \<Longrightarrow> j < ncols grid6 \<Longrightarrow>
         cell out1 i j =
           (if int i < 1 \<or> int (nrows grid6) + 1 \<le> int i
               \<or> int j < - 2 \<or> int (ncols grid6) + - 2 \<le> int j
            then 0 else cell grid6 (nat (int i - 1)) (nat (int j - - 2)))"
    and b: "add_border_2d grid6 2 0 = Inr out2" "nrows out2 = nrows grid6 + 2 * nat 2"
      "ncols out2 = ncols grid6 + 2 * nat 2"
      "\<And>i j. i < nrows out2 \<Longrightarrow> j < ncols out2 \<Longrightarrow>
         (i < nat 2 \<or> nat 2 + nrows grid6 \<le> i \<or> j < nat 2 \<or> nat 2 + ncols grid6 \<le> j) \<Longrightarrow>
         cell out2 i j = 0"
    by (auto simp del: shape_grid6)
  have "cell out1 0 0 = 0" "cell out1 3 5 = 0" "cell out1 1 0 = cell grid6 0 2"
    using s(4) [of 0 0] s(4) [of 3 5] s(4) [of 1 0] by (simp_all add: shape_grid6)
  moreover have "cell out2 1 5 = 0" "cell out2 5 0 = 0" "cell out2 9 9 = 0" "cell out2 4 8 = 0"
    using b(4) [of 1 5] b(4) [of 5 0] b(4) [of 9 9] b(4) [of 4 8] b(2,3)
    by (simp_all add: shape_grid6)
  ultimately show ?thesis
    using s(1-3) b(1-3) by (simp add: well_shaped_grid6 shape_grid6)
qed

subsection \<open>C8: a shift keeps the size\<close>

text \<open>
  Claim C8. For every grid of \<open>rows \<times> cols\<close>, every shift with
  \<open>|shift_row| < rows\<close> and \<open>|shift_col| < cols\<close> and every stride, \<open>shift_2d\<close>
  returns a grid of exactly \<open>rows \<times> cols\<close>.
\<close>

theorem shift_2d_preserves_size:
  assumes "well_shaped g" and "\<bar>shift_row\<bar> < int (nrows g)" and "\<bar>shift_col\<bar> < int (ncols g)"
  shows "\<exists>out. shift_2d g (shift_row, shift_col) stride = Inr out \<and> well_shaped out
           \<and> nrows out = nrows g \<and> ncols out = ncols g"
  using assms by (intro shift_2d_in_range) simp_all

theorem shift_2d_preserves_size_witness:
  "well_shaped grid6 \<and> \<bar>2\<bar> < int (nrows grid6) \<and> \<bar>- 3\<bar> < int (ncols grid6)
   \<and> (\<exists>out. shift_2d grid6 (2, - 3) 2 = Inr out \<and> well_shaped out
           \<and> nrows out = nrows grid6 \<and> ncols out = ncols grid6)"
  using shift_2d_preserves_size [of grid6 2 "- 3" 2]
  by (simp add: well_shaped_grid6 shape_grid6)

subsection \<open>C9: the demonstration shift\<close>

text \<open>
  Claim C9. On the 6 by 6 grid of the values 1 to 36 in row-major order,
  \<open>shift_2d(grid, (1, 0), stride=1)\<close> returns a grid whose row 0 is the original
  row 0 and whose rows 1 to 5 are the original rows 0 to 4.
\<close>

theorem shift_2d_grid6_down_one:
  "shift_2d grid6 (1, 0) 1 =
     Inr \<lparr>nrows = 6, ncols = 6, elems = elems grid6 ! 0 # take 5 (elems grid6)\<rparr>"
  by code_simp

subsection \<open>C10: values are moved, never computed\<close>

text \<open>
  Claim C10. Whatever the arguments, every element of a grid returned by
  \<open>shift_2d\<close> or by \<open>add_border_2d\<close> is zero or an element of the input grid.
\<close>

theorem outputs_only_move_values:
  assumes "well_shaped g"
  shows "(shift_2d g shifts stride = Inr out \<longrightarrow> values_of out \<subseteq> insert 0 (values_of g))
       \<and> (add_border_2d g border_width stride = Inr out' \<longrightarrow>
            values_of out' \<subseteq> insert 0 (values_of g))"
  using moved_shift_2d [OF moved_from_self [OF assms], of shifts stride out]
    moved_add_border_2d [OF moved_from_self [OF assms], of border_width stride out']
  by (simp add: moved_from_def)

text \<open>
  The theorem at the 6 by 6 grid: the shift \<open>(1, 0)\<close> with \<open>stride = 1\<close>, and
  the border of width 1 with \<open>stride = 2\<close>.
\<close>

theorem outputs_only_move_values_witness:
  "well_shaped grid6
   \<and> shift_2d grid6 (1, 0) 1 =
       Inr \<lparr>nrows = 6, ncols = 6, elems = elems grid6 ! 0 # take 5 (elems grid6)\<rparr>
   \<and> values_of \<lparr>nrows = 6, ncols = 6, elems = elems grid6 ! 0 # take 5 (elems grid6)\<rparr>
         \<subseteq> insert 0 (values_of grid6)
   \<and> add_border_2d grid6 1 2 =
       Inr \<lparr>nrows = 8, ncols = 8,
            elems = [[1, 1, 2, 3, 4, 5, 6, 5],
                     [1, 1, 2, 3, 4, 5, 6, 5],
                     [7, 7, 8, 9, 10, 11, 12, 11],
                     [13, 13, 14, 15, 16, 17, 18, 17],
                     [19, 19, 20, 21, 22, 23, 24, 23],
                     [25, 25, 26, 27, 28, 29, 30, 29],
                     [31, 31, 32, 33, 34, 35, 36, 35],
                     [25, 25, 26, 27, 28, 29, 30, 29]]\<rparr>
   \<and> values_of \<lparr>nrows = 8, ncols = 8,
            elems = [[1, 1, 2, 3, 4, 5, 6, 5],
                     [1, 1, 2, 3, 4, 5, 6, 5],
                     [7, 7, 8, 9, 10, 11, 12, 11],
                     [13, 13, 14, 15, 16, 17, 18, 17],
                     [19, 19, 20, 21, 22, 23, 24, 23],
                     [25, 25, 26, 27, 28, 29, 30, 29],
                     [31, 31, 32, 33, 34, 35, 36, 35],
                     [25, 25, 26, 27, 28, 29, 30, 29 :: 16 word]]\<rparr>
         \<subseteq> insert 0 (values_of grid6)"
proof -
  have shifted: "shift_2d grid6 (1, 0) 1 =
       Inr \<lparr>nrows = 6, ncols = 6, elems = elems grid6 ! 0 # take 5 (elems grid6)\<rparr>"
    by code_simp
  have bordered: "add_border_2d grid6 1 2 =
       Inr \<lparr>nrows = 8, ncols = 8,
            elems = [[1, 1, 2, 3, 4, 5, 6, 5],
                     [1, 1, 2, 3, 4, 5, 6, 5],
                     [7, 7, 8, 9, 10, 11, 12, 11],
                     [13, 13, 14, 15, 16, 17, 18, 17],
                     [19, 19, 20, 21, 22, 23, 24, 23],
                     [25, 25, 26, 27, 28, 29, 30, 29],
                     [31, 31, 32, 33, 34, 35, 36, 35],
                     [25, 25, 26, 27, 28, 29, 30, 29]]\<rparr>"
    by code_simp
  from outputs_only_move_values [OF well_shaped_grid6, of "(1, 0)" 1 _ 1 _] shifted
  have "values_of \<lparr>nrows = 6, ncols = 6, elems = elems grid6 ! 0 # take 5 (elems grid6)\<rparr>
         \<subseteq> insert 0 (values_of grid6)"
    by blast
  moreover from outputs_only_move_values [OF well_shaped_grid6, of "(1, 0)" 2 _ 1 _] bordered
  have "values_of \<lparr>nrows = 8, ncols = 8,
            elems = [[1, 1, 2, 3, 4, 5, 6, 5],
                     [1, 1, 2, 3, 4, 5, 6, 5],
                     [7, 7, 8, 9, 10, 11, 12, 11],
                     [13, 13, 14, 15, 16, 17, 18, 17],
                     [19, 19, 20, 21, 22, 23, 24, 23],
                     [25, 25, 26, 27, 28, 29, 30, 29],
                     [31, 31, 32, 33, 34, 35, 36, 35],
                     [25, 25, 26, 27, 28, 29, 30, 29 :: 16 word]]\<rparr>
         \<subseteq> insert 0 (values_of grid6)"
    by blast
  ultimately show ?thesis
    using shifted bordered well_shaped_grid6 by (intro conjI)
qed

end
